theory Spec2Isabelle
  imports Complex_Main "HOL-Library.Multiset" "HOL-Library.Log_Nat"
begin

section \<open>JavaScript numbers\<close>

text \<open>
  The metrics code computes with JavaScript numbers. A finite number is a real here;
  the values that \<^verbatim>\<open>Math.min()\<close>, \<^verbatim>\<open>Math.max()\<close>, a division by zero and an
  out-of-range array read produce are constructors of their own.
\<close>

datatype jsval = Num real | Infinity | NegInfinity | NaN | Undefined

text \<open>Truthiness of a value, as \<^verbatim>\<open>||\<close> tests it: \<^verbatim>\<open>0\<close>, \<^verbatim>\<open>NaN\<close> and
  \<^verbatim>\<open>undefined\<close> are falsy, both infinities are truthy.\<close>

fun truthy :: "jsval \<Rightarrow> bool" where
  "truthy (Num x) = (x \<noteq> 0)"
| "truthy Infinity = True"
| "truthy NegInfinity = True"
| "truthy NaN = False"
| "truthy Undefined = False"

definition js_or :: "jsval \<Rightarrow> jsval \<Rightarrow> jsval" where
  "js_or a b = (if truthy a then a else b)"

text \<open>\<^verbatim>\<open>Math.min(...xs)\<close> and \<^verbatim>\<open>Math.max(...xs)\<close> on an array of finite numbers:
  with no argument they return \<^verbatim>\<open>Infinity\<close> and \<^verbatim>\<open>-Infinity\<close>.\<close>

fun Math_min :: "real list \<Rightarrow> jsval" where
  "Math_min [] = Infinity"
| "Math_min (x # xs) = (case Math_min xs of Num y \<Rightarrow> Num (min x y) | _ \<Rightarrow> Num x)"

fun Math_max :: "real list \<Rightarrow> jsval" where
  "Math_max [] = NegInfinity"
| "Math_max (x # xs) = (case Math_max xs of Num y \<Rightarrow> Num (max x y) | _ \<Rightarrow> Num x)"

text \<open>\<^verbatim>\<open>a / b\<close> on finite numbers.\<close>

definition js_div :: "real \<Rightarrow> real \<Rightarrow> jsval" where
  "js_div a b =
     (if b \<noteq> 0 then Num (a / b)
      else if a = 0 then NaN
      else if 0 < a then Infinity else NegInfinity)"

text \<open>\<^verbatim>\<open>xs[i]\<close> for an integer \<open>i\<close>: \<^verbatim>\<open>undefined\<close> out of range.\<close>

definition js_index :: "real list \<Rightarrow> int \<Rightarrow> jsval" where
  "js_index xs i = (if 0 \<le> i \<and> i < int (length xs) then Num (xs ! nat i) else Undefined)"

text \<open>
  A JavaScript number is an IEEE 754 double, and \<^verbatim>\<open>/\<close> and \<^verbatim>\<open>*\<close> round the exact result
  to the nearest double, ties to the even significand. \<open>pow2 k\<close> is \<open>2\<close> to the power
  \<open>k\<close>; \<open>expo a\<close>, for \<open>a > 0\<close>, is the exponent \<open>e\<close> with \<open>2^e \<le> a < 2^(e+1)\<close>, found
  from the bit length of \<open>floor a\<close> or of \<open>ceil (1 / a) - 1\<close>; \<open>dbl x\<close> rounds \<open>x\<close> to a multiple
  of \<open>2^(e - 52)\<close>, with \<open>e\<close> no lower than \<open>-1022\<close> (the subnormal range); \<open>fl x\<close> is the
  number the operation returns, an infinity once the rounded magnitude reaches \<open>2^1024\<close>.
  The sign of a zero is not kept.
\<close>

definition pow2 :: "int \<Rightarrow> real" where
  "pow2 k = (if 0 \<le> k then 2 ^ nat k else 1 / 2 ^ nat (- k))"

definition expo :: "real \<Rightarrow> int" where
  "expo a = (if 1 \<le> a then int (floorlog 2 (nat \<lfloor>a\<rfloor>)) - 1
             else - int (floorlog 2 (nat \<lceil>1 / a\<rceil> - 1)))"

definition round_even :: "real \<Rightarrow> int" where
  "round_even y =
     (let f = \<lfloor>y\<rfloor>; r = y - of_int f
      in if r < 1 / 2 then f else if 1 / 2 < r then f + 1 else if even f then f else f + 1)"

definition dbl :: "real \<Rightarrow> real" where
  "dbl x =
     (if x = 0 then 0
      else let e = max (expo \<bar>x\<bar>) (- 1022); u = pow2 (e - 52)
           in of_int (round_even (x / u)) * u)"

definition fl :: "real \<Rightarrow> jsval" where
  "fl x =
     (let d = dbl x
      in if 2 ^ 1024 \<le> \<bar>d\<bar> then (if 0 < x then Infinity else NegInfinity) else Num d)"

text \<open>\<^verbatim>\<open>xs.slice(-k)\<close>: the last \<open>k\<close> elements.\<close>

definition slice_last :: "nat \<Rightarrow> 'a list \<Rightarrow> 'a list" where
  "slice_last k xs = drop (length xs - k) xs"


section \<open>MetricsCollector\<close>

record frame =
  frameId :: string
  captureTs :: real
  recvTs :: real
  inferenceTs :: real
  overlayTs :: real
  networkLatency :: real
  inferenceLatency :: real
  endToEndLatency :: real
  detectionCount :: nat
  timestamp :: real

record bw_entry =
  bw_value :: real
  bw_timestamp :: real

record collector =
  frames :: "frame list"
  startTime :: real
  lastResetTime :: real
  totalFrames :: nat
  processedFrames :: nat
  droppedFrames :: nat
  lat_endToEnd :: "real list"
  lat_network :: "real list"
  lat_inference :: "real list"
  lat_overlay :: "real list"
  bw_uplink :: "bw_entry list"
  bw_downlink :: "bw_entry list"
  sys_cpuUsage :: "real list"
  sys_memoryUsage :: "real list"
  sys_timestamp :: "real list"
  maxFrameHistory :: nat
  metricsWindow :: real

text \<open>The constructor; \<open>now\<close> is what \<^verbatim>\<open>Date.now()\<close> returns.\<close>

definition MetricsCollector :: "real \<Rightarrow> collector" where
  "MetricsCollector now =
     \<lparr> frames = [], startTime = now, lastResetTime = now,
       totalFrames = 0, processedFrames = 0, droppedFrames = 0,
       lat_endToEnd = [], lat_network = [], lat_inference = [], lat_overlay = [],
       bw_uplink = [], bw_downlink = [],
       sys_cpuUsage = [], sys_memoryUsage = [], sys_timestamp = [],
       maxFrameHistory = 1000, metricsWindow = 30000 \<rparr>"

definition trim_latency :: "real list \<Rightarrow> real list" where
  "trim_latency xs = (if length xs > 1000 then slice_last 500 xs else xs)"

definition cleanupOldMetrics :: "real \<Rightarrow> collector \<Rightarrow> collector" where
  "cleanupOldMetrics now m =
     (let cutoffTime = now - metricsWindow m in
      m\<lparr> lat_endToEnd := trim_latency (lat_endToEnd m),
         lat_network := trim_latency (lat_network m),
         lat_inference := trim_latency (lat_inference m),
         lat_overlay := trim_latency (lat_overlay m),
         frames := filter (\<lambda>f. timestamp f > cutoffTime) (frames m) \<rparr>)"

text \<open>\<^verbatim>\<open>recordFrame(frameData)\<close>; \<open>ndet\<close> is \<^verbatim>\<open>detections ? detections.length : 0\<close>.\<close>

definition recordFrame :: "real \<Rightarrow> string \<Rightarrow> real \<Rightarrow> real \<Rightarrow> real \<Rightarrow> nat \<Rightarrow> collector \<Rightarrow> collector" where
  "recordFrame now frame_id capture_ts recv_ts inference_ts ndet m =
     (let nl = recv_ts - capture_ts;
          il = inference_ts - recv_ts;
          el = now - capture_ts;
          f = \<lparr> frameId = frame_id, captureTs = capture_ts, recvTs = recv_ts,
                inferenceTs = inference_ts, overlayTs = now,
                networkLatency = nl, inferenceLatency = il, endToEndLatency = el,
                detectionCount = ndet, timestamp = now \<rparr>;
          fs = frames m @ [f];
          m1 = m\<lparr> frames := (if length fs > maxFrameHistory m then tl fs else fs),
                  totalFrames := totalFrames m + 1,
                  processedFrames := processedFrames m + 1,
                  lat_endToEnd := lat_endToEnd m @ [el],
                  lat_network := lat_network m @ [nl],
                  lat_inference := lat_inference m @ [il] \<rparr>
      in cleanupOldMetrics now m1)"

definition recordDroppedFrame :: "collector \<Rightarrow> collector" where
  "recordDroppedFrame m =
     m\<lparr> droppedFrames := droppedFrames m + 1, totalFrames := totalFrames m + 1 \<rparr>"

definition cleanupBandwidthData :: "real \<Rightarrow> collector \<Rightarrow> collector" where
  "cleanupBandwidthData now m =
     (let cutoffTime = now - metricsWindow m in
      m\<lparr> bw_uplink := filter (\<lambda>e. bw_timestamp e > cutoffTime) (bw_uplink m),
         bw_downlink := filter (\<lambda>e. bw_timestamp e > cutoffTime) (bw_downlink m) \<rparr>)"

definition recordBandwidth :: "real \<Rightarrow> real \<Rightarrow> real \<Rightarrow> collector \<Rightarrow> collector" where
  "recordBandwidth now uplink downlink m =
     cleanupBandwidthData now
       (m\<lparr> bw_uplink := bw_uplink m @ [\<lparr> bw_value = uplink, bw_timestamp = now \<rparr>],
           bw_downlink := bw_downlink m @ [\<lparr> bw_value = downlink, bw_timestamp = now \<rparr>] \<rparr>)"

text \<open>\<^verbatim>\<open>calculatePercentile(values, percentile)\<close>: a sorted copy, the index
  \<^verbatim>\<open>Math.ceil((percentile / 100) * sorted.length) - 1\<close> with the quotient and the product
  rounded to doubles, and the read at \<^verbatim>\<open>Math.max(0, index)\<close>, which is \<^verbatim>\<open>undefined\<close>
  beyond the end. \<^verbatim>\<open>Math.ceil\<close> is exact; so is the subtraction of 1 below \<open>2^53\<close>, and
  from there on the read is beyond the end with or without rounding. An infinite product
  stays infinite: the read at \<^verbatim>\<open>Infinity\<close> is \<^verbatim>\<open>undefined\<close>, and
  \<^verbatim>\<open>Math.max(0, -Infinity)\<close> is 0.\<close>

definition calculatePercentile :: "real list \<Rightarrow> real \<Rightarrow> jsval" where
  "calculatePercentile values percentile =
     (if length values = 0 then Num 0
      else let sorted = sort values;
               prod = (case fl (percentile / 100) of
                         Num q \<Rightarrow> fl (q * real (length sorted))
                       | v \<Rightarrow> v)
           in case prod of
                Num t \<Rightarrow> js_index sorted (max 0 (\<lceil>t\<rceil> - 1))
              | NegInfinity \<Rightarrow> js_index sorted 0
              | _ \<Rightarrow> Undefined)"

text \<open>The client's \<^verbatim>\<open>calculatePercentile(sortedArray, percentile)\<close> of the metrics
  display: the same index on an array its callers have sorted.\<close>

definition display_calculatePercentile :: "real list \<Rightarrow> real \<Rightarrow> jsval" where
  "display_calculatePercentile sortedArray percentile =
     (if length sortedArray = 0 then Num 0
      else let prod = (case fl (percentile / 100) of
                         Num q \<Rightarrow> fl (q * real (length sortedArray))
                       | v \<Rightarrow> v)
           in case prod of
                Num t \<Rightarrow> js_index sortedArray (max 0 (\<lceil>t\<rceil> - 1))
              | NegInfinity \<Rightarrow> js_index sortedArray 0
              | _ \<Rightarrow> Undefined)"

definition calculateAverage :: "real list \<Rightarrow> jsval" where
  "calculateAverage values =
     (if length values = 0 then Num 0
      else js_div (fold (\<lambda>val sum. sum + val) values 0) (real (length values)))"

record e2e_stats =
  median :: jsval
  p95 :: jsval
  p99 :: jsval
  average :: jsval
  smin :: jsval
  smax :: jsval

record lat_stats =
  l_median :: jsval
  l_p95 :: jsval
  l_average :: jsval

record level_stats =
  current :: jsval
  lv_average :: jsval
  lv_max :: jsval

record frame_stats =
  fs_total :: nat
  fs_processed :: nat
  fs_dropped :: nat
  fs_dropRate :: jsval
  fs_fps :: jsval

record snapshot =
  sn_timestamp :: real
  sn_duration :: real
  sn_frames :: frame_stats
  latency_endToEnd :: e2e_stats
  latency_network :: lat_stats
  latency_inference :: lat_stats
  bandwidth_uplink :: level_stats
  bandwidth_downlink :: level_stats
  system_cpu :: level_stats
  system_memory :: level_stats
  recentFrames :: "frame list"
  sampleCount_frames :: nat
  sampleCount_latencies :: nat
  sampleCount_bandwidth :: nat

text \<open>\<^verbatim>\<open>xs.length > 0 ? xs[xs.length - 1] : 0\<close>\<close>

definition last_or_zero :: "real list \<Rightarrow> jsval" where
  "last_or_zero xs = (if length xs > 0 then Num (last xs) else Num 0)"

definition level :: "real list \<Rightarrow> level_stats" where
  "level xs =
     \<lparr> current = last_or_zero xs,
       lv_average = calculateAverage xs,
       lv_max = js_or (Math_max xs) (Num 0) \<rparr>"

definition getMetrics :: "real \<Rightarrow> collector \<Rightarrow> snapshot" where
  "getMetrics now m =
     (let duration = (now - lastResetTime m) / 1000;
          fps = js_div (real (processedFrames m)) duration;
          dropRate = (if totalFrames m > 0
                      then (case js_div (real (droppedFrames m)) (real (totalFrames m)) of
                              Num r \<Rightarrow> Num (r * 100) | v \<Rightarrow> v)
                      else Num 0);
          endToEndStats =
            \<lparr> median = calculatePercentile (lat_endToEnd m) 50,
              p95 = calculatePercentile (lat_endToEnd m) 95,
              p99 = calculatePercentile (lat_endToEnd m) 99,
              average = calculateAverage (lat_endToEnd m),
              smin = js_or (Math_min (lat_endToEnd m)) (Num 0),
              smax = js_or (Math_max (lat_endToEnd m)) (Num 0) \<rparr>;
          networkStats =
            \<lparr> l_median = calculatePercentile (lat_network m) 50,
              l_p95 = calculatePercentile (lat_network m) 95,
              l_average = calculateAverage (lat_network m) \<rparr>;
          inferenceStats =
            \<lparr> l_median = calculatePercentile (lat_inference m) 50,
              l_p95 = calculatePercentile (lat_inference m) 95,
              l_average = calculateAverage (lat_inference m) \<rparr>;
          uplinkValues = map bw_value (bw_uplink m);
          downlinkValues = map bw_value (bw_downlink m)
      in \<lparr> sn_timestamp = now,
           sn_duration = duration,
           sn_frames = \<lparr> fs_total = totalFrames m, fs_processed = processedFrames m,
                         fs_dropped = droppedFrames m, fs_dropRate = dropRate, fs_fps = fps \<rparr>,
           latency_endToEnd = endToEndStats,
           latency_network = networkStats,
           latency_inference = inferenceStats,
           bandwidth_uplink = level uplinkValues,
           bandwidth_downlink = level downlinkValues,
           system_cpu = level (sys_cpuUsage m),
           system_memory = level (sys_memoryUsage m),
           recentFrames = slice_last 10 (frames m),
           sampleCount_frames = length (frames m),
           sampleCount_latencies = length (lat_endToEnd m),
           sampleCount_bandwidth = length (bw_uplink m) \<rparr>)"

text \<open>\<^verbatim>\<open>reset()\<close> clears the frame history, the counters, every latency series and both
  bandwidth series; it leaves the system series as they are.\<close>

definition reset :: "real \<Rightarrow> collector \<Rightarrow> collector" where
  "reset now m =
     m\<lparr> frames := [], totalFrames := 0, processedFrames := 0, droppedFrames := 0,
        lastResetTime := now,
        lat_endToEnd := [], lat_network := [], lat_inference := [], lat_overlay := [],
        bw_uplink := [], bw_downlink := [] \<rparr>"


section \<open>ObjectDetectionService\<close>

record detection =
  label :: string
  score :: real
  xmin :: real
  ymin :: real
  xmax :: real
  ymax :: real

definition mockDetections :: "detection list" where
  "mockDetections =
     [ \<lparr> label = ''person'', score = 0.85, xmin = 0.2, ymin = 0.1, xmax = 0.6, ymax = 0.8 \<rparr>,
       \<lparr> label = ''phone'', score = 0.72, xmin = 0.3, ymin = 0.4, xmax = 0.5, ymax = 0.7 \<rparr> ]"

text \<open>\<^verbatim>\<open>mockDetections.filter(() => Math.random() > 0.3)\<close>: \<open>r1\<close> and \<open>r2\<close> are the two
  values \<^verbatim>\<open>Math.random()\<close> returns, one for each element.\<close>

definition getMockDetections :: "real \<Rightarrow> real \<Rightarrow> detection list" where
  "getMockDetections r1 r2 =
     map fst (filter (\<lambda>(d, r). r > 0.3) (zip mockDetections [r1, r2]))"

text \<open>The ONNX inference session is an opaque handle.\<close>

datatype session = InferenceSession

text \<open>What a promise handed to a caller ends as.\<close>

datatype outcome = Resolved "detection list" | Rejected string

text \<open>A queue entry \<^verbatim>\<open>{ imageData, resolve, reject }\<close>: the two callbacks settle one
  promise, named here by the number of the \<open>detectServerSide\<close> call that created it.\<close>

record entry =
  imageData :: string
  promise :: nat

text \<open>
  The fields of the service that the queue uses, and the fields that record what the
  code does: \<open>nextPromise\<close> numbers the promises, \<open>running\<close> holds one entry for every
  activation of \<open>processQueue\<close> that is suspended at \<^verbatim>\<open>await this.runInference(...)\<close>,
  \<open>dispatched\<close> lists the entries handed to \<open>runInference\<close> in the order of the calls,
  \<open>evicted\<close> lists the entries that \<open>detectServerSide\<close> shifted out of a full queue,
  \<open>settled\<close> lists the promises resolved or rejected, and \<open>console\<close> the lines written by
  \<^verbatim>\<open>console.error\<close>.
\<close>

record service =
  mode :: string
  session :: "session option"
  initialized :: bool
  maxQueueSize :: nat
  processingQueue :: "entry list"
  isProcessing :: bool
  nextPromise :: nat
  running :: "entry list"
  dispatched :: "entry list"
  evicted :: "entry list"
  settled :: "(nat \<times> outcome) list"
  console :: "string list"

definition ObjectDetectionService :: "string \<Rightarrow> service" where
  "ObjectDetectionService m =
     \<lparr> mode = m, session = None, initialized = False,
       maxQueueSize = 10, processingQueue = [], isProcessing = False,
       nextPromise = 0, running = [], dispatched = [], evicted = [], settled = [], console = [] \<rparr>"

text \<open>\<^verbatim>\<open>initialize()\<close>: in server mode the model is looked up and loaded; \<open>model_loads\<close>
  says whether that succeeds. When it fails the service falls back to WASM mode.\<close>

definition initialize :: "bool \<Rightarrow> service \<Rightarrow> service" where
  "initialize model_loads s =
     (let s1 = (if mode s = ''server''
                then (if model_loads then s\<lparr> session := Some InferenceSession \<rparr>
                      else s\<lparr> mode := ''wasm'' \<rparr>)
                else s)
      in s1\<lparr> initialized := True \<rparr>)"

text \<open>The body of the \<^verbatim>\<open>while\<close> loop of \<open>processQueue\<close> up to its \<^verbatim>\<open>await\<close>: with a
  non-empty queue the oldest entry is shifted out and \<open>runInference\<close> is called on it;
  with an empty queue the loop ends and \<^verbatim>\<open>finally\<close> clears the flag.\<close>

definition drain :: "service \<Rightarrow> service" where
  "drain s =
     (case processingQueue s of
        [] \<Rightarrow> s\<lparr> isProcessing := False \<rparr>
      | e # q \<Rightarrow> s\<lparr> processingQueue := q,
                     running := running s @ [e],
                     dispatched := dispatched s @ [e] \<rparr>)"

definition processQueue :: "service \<Rightarrow> service" where
  "processQueue s =
     (if isProcessing s \<or> length (processingQueue s) = 0 then s
      else drain (s\<lparr> isProcessing := True \<rparr>))"

text \<open>\<^verbatim>\<open>detectServerSide(imageData)\<close> returns the new promise. \<^verbatim>\<open>shift()\<close> is \<open>tl\<close>, which
  leaves an empty list empty, and what it takes out is \<open>take 1\<close>. Nothing inside its
  \<^verbatim>\<open>try\<close> throws, and the promise is returned without \<^verbatim>\<open>await\<close>, so its \<^verbatim>\<open>catch\<close>
  never runs.\<close>

definition detectServerSide :: "string \<Rightarrow> service \<Rightarrow> nat \<times> service" where
  "detectServerSide img s =
     (let full = (length (processingQueue s) \<ge> maxQueueSize s);
          q = (if full then tl (processingQueue s) else processingQueue s);
          out = (if full then take 1 (processingQueue s) else []);
          p = nextPromise s;
          s1 = s\<lparr> processingQueue := q @ [\<lparr> imageData = img, promise = p \<rparr>],
                  evicted := evicted s @ out,
                  nextPromise := p + 1 \<rparr>
      in (p, processQueue s1))"

text \<open>What the inference collaborator does inside the \<^verbatim>\<open>try\<close> of \<open>runInference\<close>
  (preprocessing, \<^verbatim>\<open>session.run\<close>): it returns, or it throws an error with a message.\<close>

datatype collaborator = Run_returns | Run_throws string

text \<open>\<^verbatim>\<open>runInference\<close>: the value or the error it ends with, and the lines it logs.\<close>

definition runInference ::
  "session option \<Rightarrow> collaborator \<Rightarrow> real \<Rightarrow> real \<Rightarrow> (string + detection list) \<times> string list" where
  "runInference sess c r1 r2 =
     (case sess of
        None \<Rightarrow> (Inl ''Model session not available'', [])
      | Some _ \<Rightarrow>
          (case c of
             Run_returns \<Rightarrow> (Inr (getMockDetections r1 r2), [])
           | Run_throws err \<Rightarrow> (Inr (getMockDetections r1 r2), [''Inference error: '' @ err])))"

definition remove_nth :: "nat \<Rightarrow> 'a list \<Rightarrow> 'a list" where
  "remove_nth i xs = take i xs @ drop (Suc i) xs"

text \<open>The \<^verbatim>\<open>await\<close> of the \<open>i\<close>-th suspended activation of \<open>processQueue\<close> returns: the
  promise of its entry is resolved with the detections or rejected with the error, and
  the loop goes on. With no such activation nothing happens. The session is the one the
  service holds; no operation here changes it while a call is pending.\<close>

definition resume ::
  "nat \<Rightarrow> collaborator \<Rightarrow> real \<Rightarrow> real \<Rightarrow> service \<Rightarrow> (nat \<times> outcome) option \<times> service" where
  "resume i c r1 r2 s =
     (if i < length (running s)
      then let e = running s ! i;
               (res, logs) = runInference (session s) c r1 r2;
               out = (case res of Inr d \<Rightarrow> Resolved d | Inl err \<Rightarrow> Rejected err);
               s1 = s\<lparr> running := remove_nth i (running s),
                       settled := settled s @ [(promise e, out)],
                       console := console s @ logs \<rparr>
           in (Some (promise e, out), drain s1)
      else (None, s))"

text \<open>What can happen to one service: a call of \<open>detectServerSide\<close>, or the completion
  of a pending inference.\<close>

datatype event = Enqueue string | Complete nat collaborator real real

fun step :: "event \<Rightarrow> service \<Rightarrow> service" where
  "step (Enqueue img) s = snd (detectServerSide img s)"
| "step (Complete i c r1 r2) s = snd (resume i c r1 r2 s)"

definition exec :: "event list \<Rightarrow> service \<Rightarrow> service" where
  "exec evs s = fold step evs s"

text \<open>\<^verbatim>\<open>detectObjects(imageData)\<close> throws when the service is not initialised, goes
  through the queue in server mode, and returns mock detections at once otherwise.\<close>

datatype detect_result = Throws string | Pending nat | Returns "detection list"

definition detectObjects :: "string \<Rightarrow> real \<Rightarrow> real \<Rightarrow> service \<Rightarrow> detect_result \<times> service" where
  "detectObjects img r1 r2 s =
     (if \<not> initialized s then (Throws ''Detection service not initialized'', s)
      else if mode s = ''server''
      then (let (p, s') = detectServerSide img s in (Pending p, s'))
      else (Returns (getMockDetections r1 r2), s))"


section \<open>The server's detect-frame handler\<close>

text \<open>The server owns one detection service and one metrics collector. A
  \<^verbatim>\<open>detect-frame\<close> handler awaits \<open>detectObjects\<close>; when the promise resolves it records
  the frame and emits \<^verbatim>\<open>detection-result\<close>, when it rejects it emits
  \<^verbatim>\<open>detection-error\<close>. \<open>waiting\<close> holds the handlers suspended on a promise.\<close>

record request =
  rq_frameId :: string
  rq_captureTs :: real
  rq_recvTs :: real

datatype reply =
    Detection_result string real real real "detection list"
  | Detection_error string

record server =
  detectionService :: service
  metricsCollector :: collector
  waiting :: "(nat \<times> request) list"
  emitted :: "reply list"

definition Server :: "string \<Rightarrow> real \<Rightarrow> bool \<Rightarrow> server" where
  "Server m now model_loads =
     \<lparr> detectionService = initialize model_loads (ObjectDetectionService m),
       metricsCollector = MetricsCollector now,
       waiting = [], emitted = [] \<rparr>"

text \<open>The rest of the handler after the \<^verbatim>\<open>await\<close>; every \<^verbatim>\<open>Date.now()\<close> of one
  run is \<open>now\<close>.\<close>

definition deliver :: "real \<Rightarrow> request \<Rightarrow> detection list \<Rightarrow> server \<Rightarrow> server" where
  "deliver now rq dets srv =
     srv\<lparr> metricsCollector :=
            recordFrame now (rq_frameId rq) (rq_captureTs rq) (rq_recvTs rq) now (length dets)
              (metricsCollector srv),
          emitted := emitted srv @
            [Detection_result (rq_frameId rq) (rq_captureTs rq) (rq_recvTs rq) now dets] \<rparr>"

definition handle_detect_frame ::
  "real \<Rightarrow> string \<Rightarrow> string \<Rightarrow> real \<Rightarrow> real \<Rightarrow> real \<Rightarrow> server \<Rightarrow> server" where
  "handle_detect_frame now img fid cts r1 r2 srv =
     (let (res, svc) = detectObjects img r1 r2 (detectionService srv);
          srv1 = srv\<lparr> detectionService := svc \<rparr>;
          rq = \<lparr> rq_frameId = fid, rq_captureTs = cts, rq_recvTs = now \<rparr>
      in case res of
           Throws msg \<Rightarrow> srv1\<lparr> emitted := emitted srv1 @ [Detection_error msg] \<rparr>
         | Pending p \<Rightarrow> srv1\<lparr> waiting := waiting srv1 @ [(p, rq)] \<rparr>
         | Returns dets \<Rightarrow> deliver now rq dets srv1)"

definition handle_inference_done ::
  "real \<Rightarrow> nat \<Rightarrow> collaborator \<Rightarrow> real \<Rightarrow> real \<Rightarrow> server \<Rightarrow> server" where
  "handle_inference_done now i c r1 r2 srv =
     (let (st, svc) = resume i c r1 r2 (detectionService srv);
          srv1 = srv\<lparr> detectionService := svc \<rparr>
      in case st of
           None \<Rightarrow> srv1
         | Some (p, out) \<Rightarrow>
             (case map_of (waiting srv1) p of
                None \<Rightarrow> srv1
              | Some rq \<Rightarrow>
                  (let srv2 = srv1\<lparr> waiting := filter (\<lambda>(q, _). q \<noteq> p) (waiting srv1) \<rparr>
                   in case out of
                        Resolved dets \<Rightarrow> deliver now rq dets srv2
                      | Rejected msg \<Rightarrow> srv2\<lparr> emitted := emitted srv2 @ [Detection_error msg] \<rparr>)))"

datatype server_event =
    Detect_frame real string string real real real
  | Inference_done real nat collaborator real real
  | Record_bandwidth real real real
  | Reset_metrics real

fun server_step :: "server_event \<Rightarrow> server \<Rightarrow> server" where
  "server_step (Detect_frame now img fid cts r1 r2) srv = handle_detect_frame now img fid cts r1 r2 srv"
| "server_step (Inference_done now i c r1 r2) srv = handle_inference_done now i c r1 r2 srv"
| "server_step (Record_bandwidth now up down) srv =
     srv\<lparr> metricsCollector := recordBandwidth now up down (metricsCollector srv) \<rparr>"
| "server_step (Reset_metrics now) srv =
     srv\<lparr> metricsCollector := reset now (metricsCollector srv) \<rparr>"

definition server_exec :: "server_event list \<Rightarrow> server \<Rightarrow> server" where
  "server_exec evs srv = fold server_step evs srv"


section \<open>WebRTCSignaling\<close>

text \<open>A client entry of \<^verbatim>\<open>this.clients\<close>: its registered type and its room, both
  \<^verbatim>\<open>null\<close> (\<open>None\<close>) at first. The socket is named by its id.\<close>

record client =
  ctype :: "string option"
  room :: "string option"

text \<open>A room of \<^verbatim>\<open>this.rooms\<close>: \<^verbatim>\<open>clients\<close> is a JavaScript \<^verbatim>\<open>Set\<close>, kept here
  as the list of its elements in insertion order.\<close>

record room_rec =
  room_clients :: "string list"
  created :: real

record signaling =
  rooms :: "string \<rightharpoonup> room_rec"
  clients :: "string \<rightharpoonup> client"

definition WebRTCSignaling :: signaling where
  "WebRTCSignaling = \<lparr> rooms = Map.empty, clients = Map.empty \<rparr>"

definition set_add :: "string \<Rightarrow> string list \<Rightarrow> string list" where
  "set_add x xs = (if x \<in> set xs then xs else xs @ [x])"

definition set_delete :: "string \<Rightarrow> string list \<Rightarrow> string list" where
  "set_delete x xs = removeAll x xs"

text \<open>The room that \<^verbatim>\<open>if (client.room)\<close> finds: the test is one of truthiness, so
  \<^verbatim>\<open>null\<close> and the empty string both count as no room.\<close>

definition current_room :: "client \<Rightarrow> string option" where
  "current_room c = (case room c of None \<Rightarrow> None | Some r \<Rightarrow> if r = [] then None else Some r)"

text \<open>What a handler asks of socket.io: joining and leaving a socket.io room,
  \<^verbatim>\<open>socket.emit\<close> to the socket itself, and \<^verbatim>\<open>socket.to(name).emit\<close> to the
  socket.io room of that name (a socket's own id names the room that holds it alone).\<close>

datatype relay_kind = Offer | Answer | Ice_candidate | Data_channel_message

datatype message =
    Registered string string
  | Peer_joined string "string option"
  | Room_joined string "(string \<times> string option) list"
  | Peer_left string
  | Relayed relay_kind string string

datatype effect =
    Socket_join string string
  | Socket_leave string string
  | Emit string message
  | Emit_to string string message

definition handleConnection :: "string \<Rightarrow> signaling \<Rightarrow> signaling \<times> effect list" where
  "handleConnection sid s =
     (s\<lparr> clients := (clients s)(sid \<mapsto> \<lparr> ctype = None, room = None \<rparr>) \<rparr>, [])"

definition handleRegister :: "string \<Rightarrow> string \<Rightarrow> signaling \<Rightarrow> signaling \<times> effect list" where
  "handleRegister sid type s =
     (case clients s sid of
        None \<Rightarrow> (s, [])
      | Some c \<Rightarrow> (s\<lparr> clients := (clients s)(sid \<mapsto> c\<lparr> ctype := Some type \<rparr>) \<rparr>,
                    [Emit sid (Registered sid type)]))"

definition removeFromRoom :: "string \<Rightarrow> string \<Rightarrow> signaling \<Rightarrow> signaling" where
  "removeFromRoom roomId clientId s =
     (case rooms s roomId of
        None \<Rightarrow> s
      | Some r \<Rightarrow>
          (let cs = set_delete clientId (room_clients r) in
           if length cs = 0 then s\<lparr> rooms := (rooms s)(roomId := None) \<rparr>
           else s\<lparr> rooms := (rooms s)(roomId \<mapsto> r\<lparr> room_clients := cs \<rparr>) \<rparr>))"

text \<open>\<^verbatim>\<open>c ? c.type : 'unknown'\<close>\<close>

definition type_of :: "signaling \<Rightarrow> string \<Rightarrow> string option" where
  "type_of s i = (case clients s i of None \<Rightarrow> Some ''unknown'' | Some c \<Rightarrow> ctype c)"

definition handleJoinRoom :: "real \<Rightarrow> string \<Rightarrow> string \<Rightarrow> signaling \<Rightarrow> signaling \<times> effect list" where
  "handleJoinRoom now sid roomId s =
     (case clients s sid of
        None \<Rightarrow> (s, [])
      | Some c \<Rightarrow>
          (let (s1, left) =
                 (case current_room c of
                    None \<Rightarrow> (s, [])
                  | Some old \<Rightarrow> (removeFromRoom old sid s, [Socket_leave sid old]));
               s2 = s1\<lparr> clients := (clients s1)(sid \<mapsto> c\<lparr> room := Some roomId \<rparr>) \<rparr>;
               r = (case rooms s2 roomId of
                      None \<Rightarrow> \<lparr> room_clients = [], created = now \<rparr>
                    | Some r \<Rightarrow> r);
               r' = r\<lparr> room_clients := set_add sid (room_clients r) \<rparr>;
               s3 = s2\<lparr> rooms := (rooms s2)(roomId \<mapsto> r') \<rparr>;
               roomClients = map (\<lambda>i. (i, type_of s3 i))
                               (filter (\<lambda>i. i \<noteq> sid) (room_clients r'))
           in (s3, left @ [Socket_join sid roomId,
                           Emit_to sid roomId (Peer_joined sid (ctype c)),
                           Emit sid (Room_joined roomId roomClients)])))"

definition handleOffer :: "string \<Rightarrow> string \<Rightarrow> string \<Rightarrow> signaling \<Rightarrow> signaling \<times> effect list" where
  "handleOffer sid targetId offer s =
     (case clients s sid of
        None \<Rightarrow> (s, [])
      | Some c \<Rightarrow>
          (case current_room c of
             None \<Rightarrow> (s, [])
           | Some _ \<Rightarrow> (s, [Emit_to sid targetId (Relayed Offer sid offer)])))"

definition handleAnswer :: "string \<Rightarrow> string \<Rightarrow> string \<Rightarrow> signaling \<Rightarrow> signaling \<times> effect list" where
  "handleAnswer sid targetId answer s =
     (case clients s sid of
        None \<Rightarrow> (s, [])
      | Some c \<Rightarrow>
          (case current_room c of
             None \<Rightarrow> (s, [])
           | Some _ \<Rightarrow> (s, [Emit_to sid targetId (Relayed Answer sid answer)])))"

definition handleIceCandidate :: "string \<Rightarrow> string \<Rightarrow> string \<Rightarrow> signaling \<Rightarrow> signaling \<times> effect list" where
  "handleIceCandidate sid targetId candidate s =
     (case clients s sid of
        None \<Rightarrow> (s, [])
      | Some c \<Rightarrow>
          (case current_room c of
             None \<Rightarrow> (s, [])
           | Some _ \<Rightarrow> (s, [Emit_to sid targetId (Relayed Ice_candidate sid candidate)])))"

definition handleDataChannelMessage ::
  "string \<Rightarrow> string \<Rightarrow> string \<Rightarrow> signaling \<Rightarrow> signaling \<times> effect list" where
  "handleDataChannelMessage sid targetId msg s =
     (case clients s sid of
        None \<Rightarrow> (s, [])
      | Some c \<Rightarrow>
          (case current_room c of
             None \<Rightarrow> (s, [])
           | Some _ \<Rightarrow> (s, [Emit_to sid targetId (Relayed Data_channel_message sid msg)])))"

definition handleDisconnect :: "string \<Rightarrow> signaling \<Rightarrow> signaling \<times> effect list" where
  "handleDisconnect sid s =
     (case clients s sid of
        None \<Rightarrow> (s, [])
      | Some c \<Rightarrow>
          (let (s1, told) =
                 (case current_room c of
                    None \<Rightarrow> (s, [])
                  | Some old \<Rightarrow> (removeFromRoom old sid s, [Emit_to sid old (Peer_left sid)]))
           in (s1\<lparr> clients := (clients s1)(sid := None) \<rparr>, told)))"

text \<open>\<^verbatim>\<open>getRoomInfo(roomId)\<close>: \<^verbatim>\<open>null\<close> (\<open>None\<close>) when the room is not in the map.\<close>

definition getRoomInfo ::
  "string \<Rightarrow> signaling \<Rightarrow> (string \<times> (string \<times> string option) list \<times> real) option" where
  "getRoomInfo roomId s =
     (case rooms s roomId of
        None \<Rightarrow> None
      | Some r \<Rightarrow> Some (roomId, map (\<lambda>i. (i, type_of s i)) (room_clients r), created r))"

text \<open>The listeners that \<open>handleConnection\<close> registers on a socket, by event.\<close>

datatype sig_event =
    Connection string
  | Register string string
  | Join_room real string string
  | Targeted relay_kind string string string
  | Disconnect string

definition handle_targeted ::
  "relay_kind \<Rightarrow> string \<Rightarrow> string \<Rightarrow> string \<Rightarrow> signaling \<Rightarrow> signaling \<times> effect list" where
  "handle_targeted k sid targetId payload s =
     (case k of
        Offer \<Rightarrow> handleOffer sid targetId payload s
      | Answer \<Rightarrow> handleAnswer sid targetId payload s
      | Ice_candidate \<Rightarrow> handleIceCandidate sid targetId payload s
      | Data_channel_message \<Rightarrow> handleDataChannelMessage sid targetId payload s)"

fun sig_step :: "sig_event \<Rightarrow> signaling \<Rightarrow> signaling \<times> effect list" where
  "sig_step (Connection sid) s = handleConnection sid s"
| "sig_step (Register sid type) s = handleRegister sid type s"
| "sig_step (Join_room now sid roomId) s = handleJoinRoom now sid roomId s"
| "sig_step (Targeted k sid targetId payload) s = handle_targeted k sid targetId payload s"
| "sig_step (Disconnect sid) s = handleDisconnect sid s"

definition sig_exec :: "sig_event list \<Rightarrow> signaling \<Rightarrow> signaling" where
  "sig_exec evs s = fold (\<lambda>ev t. fst (sig_step ev t)) evs s"


section \<open>Invariants\<close>

text \<open>Of the queue: the bound, the flag that is set exactly while an activation of
  \<open>processQueue\<close> is suspended, and at most one such activation.\<close>

definition queue_inv :: "service \<Rightarrow> bool" where
  "queue_inv s \<longleftrightarrow>
     maxQueueSize s = 10
     \<and> length (processingQueue s) \<le> maxQueueSize s
     \<and> (isProcessing s \<longleftrightarrow> running s \<noteq> [])
     \<and> (processingQueue s \<noteq> [] \<longrightarrow> isProcessing s)
     \<and> length (running s) \<le> 1"

text \<open>Of the order: the entries dispatched, followed by those still queued, carry
  increasing promise numbers, all below the next number to be given out.\<close>

definition order_inv :: "service \<Rightarrow> bool" where
  "order_inv s \<longleftrightarrow>
     sorted_wrt (<) (map promise (dispatched s @ processingQueue s))
     \<and> (\<forall>e \<in> set (dispatched s @ processingQueue s). promise e < nextPromise s)"

text \<open>Of settlement: the dispatched entries are the settled ones, in the same order,
  followed by the running one.\<close>

definition settle_inv :: "service \<Rightarrow> bool" where
  "settle_inv s \<longleftrightarrow>
     map promise (dispatched s) = map fst (settled s) @ map promise (running s)"

text \<open>Of conservation: every promise given out belongs to exactly one entry that is
  dispatched, queued or evicted.\<close>

definition conserve_inv :: "service \<Rightarrow> bool" where
  "conserve_inv s \<longleftrightarrow>
     mset (map promise (dispatched s @ processingQueue s @ evicted s)) = mset [0..<nextPromise s]"

definition service_inv :: "service \<Rightarrow> bool" where
  "service_inv s \<longleftrightarrow> queue_inv s \<and> order_inv s \<and> settle_inv s \<and> conserve_inv s"





section \<open>Percentiles\<close>

lemma percentile_index_bounds:
  fixes p :: real and n :: nat
  assumes "0 < n" "0 < p" "p \<le> 100"
  shows "0 \<le> \<lceil>(p / 100) * real n\<rceil> - 1" and "\<lceil>(p / 100) * real n\<rceil> - 1 < int n"
proof -
  have pos: "0 < (p / 100) * real n" using assms by simp
  then have "0 < \<lceil>(p / 100) * real n\<rceil>" by (simp add: ceiling_less_iff)
  then show "0 \<le> \<lceil>(p / 100) * real n\<rceil> - 1" by simp
  have "p / 100 \<le> 1" using assms by simp
  then have "(p / 100) * real n \<le> 1 * real n"
    by (rule mult_right_mono) simp
  then have "(p / 100) * real n \<le> of_int (int n)" by simp
  then have "\<lceil>(p / 100) * real n\<rceil> \<le> int n" by (simp only: ceiling_le_iff)
  then show "\<lceil>(p / 100) * real n\<rceil> - 1 < int n" by simp
qed

lemmas dbl_simps = fl_def dbl_def expo_def round_even_def pow2_def Let_def compute_floorlog

lemma calculatePercentile_eval:
  "values \<noteq> [] \<Longrightarrow> fl (p / 100) = Num q \<Longrightarrow> fl (q * real (length values)) = Num t
   \<Longrightarrow> calculatePercentile values p = js_index (sort values) (max 0 (\<lceil>t\<rceil> - 1))"
  by (simp add: calculatePercentile_def Let_def)

lemma display_calculatePercentile_sort:
  "display_calculatePercentile (sort vs) p = calculatePercentile vs p"
  by (simp add: calculatePercentile_def display_calculatePercentile_def Let_def)

lemma round_even_le: "y \<le> of_int j \<Longrightarrow> round_even y \<le> j"
proof -
  assume h: "y \<le> of_int j"
  then have fl: "\<lfloor>y\<rfloor> \<le> j" by (simp add: floor_le_iff)
  show ?thesis
  proof (cases "\<lfloor>y\<rfloor> = j")
    case True
    then have "of_int j \<le> y" by (metis of_int_floor_le)
    with h have "y = of_int j" by simp
    then show ?thesis by (simp add: round_even_def)
  next
    case False
    with fl have "\<lfloor>y\<rfloor> + 1 \<le> j" by simp
    then show ?thesis by (auto simp: round_even_def Let_def)
  qed
qed

lemma round_even_nonneg: "0 \<le> y \<Longrightarrow> 0 \<le> round_even y"
  by (auto simp: round_even_def Let_def)

lemma expo_le_52:
  assumes "0 < x" "x \<le> real k" "k < 2 ^ 53"
  shows "expo x \<le> 52"
proof (cases "1 \<le> x")
  case False
  then show ?thesis by (simp add: expo_def)
next
  case True
  have "\<lfloor>x\<rfloor> \<le> int k" using assms(2) by (simp add: floor_le_iff)
  then have "nat \<lfloor>x\<rfloor> \<le> k" by simp
  then have "nat \<lfloor>x\<rfloor> < 2 ^ 53" using assms(3) by simp
  then have "floorlog 2 (nat \<lfloor>x\<rfloor>) \<le> 53" by (intro floorlog_leI) simp_all
  with True show ?thesis by (simp add: expo_def)
qed

text \<open>Rounding does not pass a natural number below \<open>2^53\<close>, which is a double itself.\<close>

lemma dbl_bounded:
  assumes "0 \<le> x" "x \<le> real k" "k < 2 ^ 53"
  shows "0 \<le> dbl x \<and> dbl x \<le> real k"
proof (cases "x = 0")
  case True
  then show ?thesis by (simp add: dbl_def)
next
  case False
  with assms(1) have pos: "0 < x" by simp
  define e where "e = max (expo \<bar>x\<bar>) (- 1022)"
  define m where "m = nat (52 - e)"
  have "expo \<bar>x\<bar> \<le> 52" using expo_le_52 [OF pos assms(2,3)] pos by simp
  then have e52: "e \<le> 52" by (simp add: e_def)
  have u: "pow2 (e - 52) = 1 / 2 ^ m"
    using e52 by (cases "e = 52") (simp_all add: pow2_def m_def)
  have d: "dbl x = of_int (round_even (x * 2 ^ m)) / 2 ^ m"
    using False by (simp add: dbl_def Let_def e_def [symmetric] u)
  have "x * 2 ^ m \<le> real k * 2 ^ m" using assms(2) by simp
  also have "\<dots> = of_int (int k * 2 ^ m)" by simp
  finally have "round_even (x * 2 ^ m) \<le> int k * 2 ^ m" by (rule round_even_le)
  then have "(of_int (round_even (x * 2 ^ m)) :: real) \<le> of_int (int k * 2 ^ m)"
    by (simp only: of_int_le_iff)
  then have up: "of_int (round_even (x * 2 ^ m)) / 2 ^ m \<le> real k"
    by (simp add: divide_le_eq)
  have "0 \<le> x * 2 ^ m" using assms(1) by simp
  then have "0 \<le> round_even (x * 2 ^ m)" by (rule round_even_nonneg)
  then have lo: "0 \<le> (of_int (round_even (x * 2 ^ m)) :: real) / 2 ^ m" by simp
  from d up lo show ?thesis by simp
qed

lemma fl_bounded:
  assumes "0 \<le> x" "x \<le> real k" "k < 2 ^ 53"
  shows "fl x = Num (dbl x)"
proof -
  have b: "0 \<le> dbl x" "dbl x \<le> real k" using dbl_bounded [OF assms] by simp_all
  have "real k < 2 ^ 53" using assms(3) by (metis of_nat_less_iff of_nat_numeral of_nat_power)
  also have "\<dots> \<le> (2::real) ^ 1024" by (rule power_increasing) simp_all
  finally have "\<bar>dbl x\<bar> < 2 ^ 1024" using b by simp
  then show ?thesis by (simp add: fl_def Let_def)
qed

lemma percentile_5_50: "calculatePercentile [10, 20, 30, 40, 50] 50 = Num 30"
proof -
  let ?vs = "[10, 20, 30, 40, 50::real]"
  have ne: "?vs \<noteq> []" by simp
  have f1: "fl (50 / 100) = Num (1 / 2)" by (simp add: dbl_simps)
  have f2: "fl (1 / 2 * real (length ?vs)) = Num (5 / 2)" by (simp add: dbl_simps)
  have "calculatePercentile ?vs 50 = js_index (sort ?vs) (max 0 (\<lceil>5 / 2 :: real\<rceil> - 1))"
    by (rule calculatePercentile_eval [OF ne f1 f2])
  moreover have "\<lceil>5 / 2 :: real\<rceil> = 3" by simp
  ultimately show ?thesis by (simp add: js_index_def)
qed

lemma percentile_5_95: "calculatePercentile [10, 20, 30, 40, 50] 95 = Num 50"
proof -
  let ?vs = "[10, 20, 30, 40, 50::real]"
  have ne: "?vs \<noteq> []" by simp
  have f1: "fl (95 / 100) = Num (8556839292003942 / 2 ^ 53)" by (simp add: dbl_simps)
  have f2: "fl (8556839292003942 / 2 ^ 53 * real (length ?vs)) = Num (19 / 4)"
    by (simp add: dbl_simps)
  have "calculatePercentile ?vs 95 = js_index (sort ?vs) (max 0 (\<lceil>19 / 4 :: real\<rceil> - 1))"
    by (rule calculatePercentile_eval [OF ne f1 f2])
  moreover have "\<lceil>19 / 4 :: real\<rceil> = 5" by simp
  ultimately show ?thesis by (simp add: js_index_def)
qed

text \<open>
  C5. For a non-empty list of latency values (an array, so shorter than \<open>2^32\<close>) and a
  percentile \<open>p\<close> with \<open>0 < p \<le> 100\<close>, \<open>calculatePercentile\<close> returns the element of the
  ascending sort at index \<open>max 0 (ceil t - 1)\<close>, where \<open>t\<close> is the product \<open>(p / 100) * n\<close> as
  the code computes it, in doubles; that index lies in \<open>0 .. n - 1\<close>. Whenever \<open>t\<close> has the
  ceiling of the exact product, this is the nearest-rank element at index
  \<open>ceil (p / 100 * n) - 1\<close>. The display's version agrees on the sorted array. On the series
  10, 20, 30, 40, 50 the 50th percentile is 30 and the 95th is 50.
\<close>

theorem calculatePercentile_index:
  assumes "vs \<noteq> []" "0 < p" "p \<le> 100" "length vs < 2 ^ 32"
  shows "calculatePercentile vs p
           = Num (sort vs ! nat (max 0 (\<lceil>dbl (dbl (p / 100) * real (length vs))\<rceil> - 1)))
       \<and> nat (max 0 (\<lceil>dbl (dbl (p / 100) * real (length vs))\<rceil> - 1)) < length vs
       \<and> (\<lceil>dbl (dbl (p / 100) * real (length vs))\<rceil> = \<lceil>(p / 100) * real (length vs)\<rceil>
          \<longrightarrow> calculatePercentile vs p
              = Num (sort vs ! nat (\<lceil>(p / 100) * real (length vs)\<rceil> - 1)))
       \<and> sorted (sort vs) \<and> mset (sort vs) = mset vs
       \<and> display_calculatePercentile (sort vs) p = calculatePercentile vs p
       \<and> calculatePercentile [10, 20, 30, 40, 50] 50 = Num 30
       \<and> calculatePercentile [10, 20, 30, 40, 50] 95 = Num 50"
proof -
  let ?n = "length vs"
  let ?q = "dbl (p / 100)"
  let ?t = "dbl (?q * real ?n)"
  have n53: "?n < 2 ^ 53"
  proof -
    have "(2::nat) ^ 32 \<le> 2 ^ 53" by (rule power_increasing) simp_all
    with assms(4) show ?thesis by simp
  qed
  have npos: "0 < ?n" using assms(1) by simp
  have p1: "0 \<le> p / 100" "p / 100 \<le> real 1" using assms(2,3) by simp_all
  have one: "(1::nat) < 2 ^ 53" by simp
  have f1: "fl (p / 100) = Num ?q" by (rule fl_bounded [OF p1 one])
  have q: "0 \<le> ?q" "?q \<le> 1" using dbl_bounded [OF p1 one] by simp_all
  have qn: "0 \<le> ?q * real ?n" "?q * real ?n \<le> real ?n"
    using q by (simp_all add: mult_left_le_one_le)
  have f2: "fl (?q * real ?n) = Num ?t" by (rule fl_bounded [OF qn n53])
  have t: "0 \<le> ?t" "?t \<le> real ?n" using dbl_bounded [OF qn n53] by simp_all
  have "\<lceil>?t\<rceil> \<le> int ?n" using t(2) by (simp add: ceiling_le_iff)
  with npos have idx: "max 0 (\<lceil>?t\<rceil> - 1) < int ?n" by simp
  have i2: "nat (max 0 (\<lceil>?t\<rceil> - 1)) < ?n" using idx by linarith
  have ev: "calculatePercentile vs p = js_index (sort vs) (max 0 (\<lceil>?t\<rceil> - 1))"
    by (rule calculatePercentile_eval [OF assms(1) f1 f2])
  with idx have gen: "calculatePercentile vs p = Num (sort vs ! nat (max 0 (\<lceil>?t\<rceil> - 1)))"
    by (simp add: js_index_def)
  have nr: "calculatePercentile vs p = Num (sort vs ! nat (\<lceil>(p / 100) * real ?n\<rceil> - 1))"
    if same: "\<lceil>?t\<rceil> = \<lceil>(p / 100) * real ?n\<rceil>"
  proof -
    have "0 \<le> \<lceil>(p / 100) * real ?n\<rceil> - 1"
      by (rule percentile_index_bounds(1) [OF npos assms(2,3)])
    then have "max 0 (\<lceil>?t\<rceil> - 1) = \<lceil>(p / 100) * real ?n\<rceil> - 1" using same by simp
    with gen show ?thesis by simp
  qed
  have srt: "sorted (sort vs) \<and> mset (sort vs) = mset vs" by simp
  from gen i2 nr srt display_calculatePercentile_sort [of vs p] percentile_5_50 percentile_5_95
  show ?thesis by blast
qed

theorem calculatePercentile_index_witness:
  "[40, 10, 50, 30, 20] \<noteq> ([]::real list) \<and> (0::real) < 50 \<and> (50::real) \<le> 100
   \<and> length [40, 10, 50, 30, 20::real] < 2 ^ 32
   \<and> \<lceil>dbl (dbl (50 / 100) * real (length [40, 10, 50, 30, 20::real]))\<rceil>
     = \<lceil>(50 / 100) * real (length [40, 10, 50, 30, 20::real])\<rceil>
   \<and> calculatePercentile [40, 10, 50, 30, 20] 50 = Num 30"
proof -
  let ?vs = "[40, 10, 50, 30, 20::real]"
  have l: "length ?vs < 2 ^ 32" by simp
  have d1: "dbl (50 / 100) = 1 / 2" by (simp add: dbl_simps)
  have d2: "dbl (1 / 2 * real (length ?vs)) = 5 / 2" by (simp add: dbl_simps)
  have c: "\<lceil>dbl (dbl (50 / 100) * real (length ?vs))\<rceil> = 3" unfolding d1 d2 by simp
  have c': "\<lceil>(50 / 100) * real (length ?vs)\<rceil> = 3" by simp
  have "calculatePercentile ?vs 50 = Num (sort ?vs ! nat (\<lceil>(50 / 100) * real (length ?vs)\<rceil> - 1))"
    using calculatePercentile_index [of ?vs 50] l c c' by simp
  then have "calculatePercentile ?vs 50 = Num 30" unfolding c' by simp
  with l c c' show ?thesis by simp
qed

text \<open>
  C5, the claim as first stated fails: for the 28th percentile of the 25 values 1 .. 25 the
  exact product is 7 and the nearest-rank index 6, whose element is 7; the code's product is
  the double above 7, its ceiling 8, and the element returned is 8.
\<close>

theorem calculatePercentile_counterexample:
  "calculatePercentile
     [1, 2, 3, 4, 5, 6, 7, 8, 9, 10, 11, 12, 13, 14, 15, 16, 17, 18, 19, 20, 21, 22, 23, 24, 25] 28
     = Num 8
   \<and> Num (sort [1, 2, 3, 4, 5, 6, 7, 8, 9, 10, 11, 12, 13, 14, 15, 16, 17, 18, 19, 20, 21, 22,
                23, 24, 25]
           ! nat (\<lceil>(28 / 100) * real (length [1, 2, 3, 4, 5, 6, 7, 8, 9, 10, 11, 12, 13, 14, 15,
                   16, 17, 18, 19, 20, 21, 22, 23, 24, 25 :: real])\<rceil> - 1))
     = Num 7"
proof -
  let ?vs = "[1, 2, 3, 4, 5, 6, 7, 8, 9, 10, 11, 12, 13, 14, 15, 16, 17, 18, 19, 20, 21, 22, 23,
              24, 25 :: real]"
  have ne: "?vs \<noteq> []" by simp
  have f1: "fl (28 / 100) = Num (5044031582654956 / 2 ^ 54)"
    by (simp add: dbl_simps)
  have f2: "fl (5044031582654956 / 2 ^ 54 * real (length ?vs)) = Num (7 + 1 / 2 ^ 50)"
    by (simp add: dbl_simps)
  have "calculatePercentile ?vs 28 = js_index (sort ?vs) (max 0 (\<lceil>7 + 1 / 2 ^ 50 :: real\<rceil> - 1))"
    by (rule calculatePercentile_eval [OF ne f1 f2])
  moreover have "\<lceil>7 + 1 / 2 ^ 50 :: real\<rceil> = 8" by simp
  ultimately have a: "calculatePercentile ?vs 28 = Num 8" by (simp add: js_index_def)
  have c: "\<lceil>(28 / 100) * real (length ?vs)\<rceil> = 7" by simp
  have b: "Num (sort ?vs ! nat (\<lceil>(28 / 100) * real (length ?vs)\<rceil> - 1)) = Num 7"
    unfolding c by simp
  from a b show ?thesis by blast
qed


section \<open>The snapshot of an empty collector\<close>


text \<open>
  C4. On a collector whose series are all empty (a fresh one, also after \<open>reset\<close>),
  \<open>getMetrics\<close> returns 0 for the percentiles, averages and current values, but the
  end-to-end minimum is \<open>Infinity\<close> and every maximum is \<open>-Infinity\<close>: the fallback
  \<^verbatim>\<open>|| 0\<close> does not replace an infinity, which is truthy.
\<close>

theorem getMetrics_empty_infinite:
  "smin (latency_endToEnd (getMetrics t1 (reset t0 (MetricsCollector t0)))) = Infinity
   \<and> smax (latency_endToEnd (getMetrics t1 (reset t0 (MetricsCollector t0)))) = NegInfinity
   \<and> lv_max (bandwidth_uplink (getMetrics t1 (reset t0 (MetricsCollector t0)))) = NegInfinity
   \<and> lv_max (bandwidth_downlink (getMetrics t1 (reset t0 (MetricsCollector t0)))) = NegInfinity
   \<and> lv_max (system_cpu (getMetrics t1 (reset t0 (MetricsCollector t0)))) = NegInfinity
   \<and> lv_max (system_memory (getMetrics t1 (reset t0 (MetricsCollector t0)))) = NegInfinity
   \<and> median (latency_endToEnd (getMetrics t1 (reset t0 (MetricsCollector t0)))) = Num 0
   \<and> average (latency_endToEnd (getMetrics t1 (reset t0 (MetricsCollector t0)))) = Num 0
   \<and> smin (latency_endToEnd (getMetrics t1 (MetricsCollector t0))) = Infinity
   \<and> smax (latency_endToEnd (getMetrics t1 (MetricsCollector t0))) = NegInfinity"
  by (simp add: getMetrics_def reset_def MetricsCollector_def level_def js_or_def
      calculatePercentile_def calculateAverage_def Let_def)


section \<open>The admission queue and the drain loop\<close>

lemma drain_order: "dispatched (drain s) @ processingQueue (drain s) = dispatched s @ processingQueue s"
  by (simp add: drain_def split: list.splits)

lemma drain_nextPromise: "nextPromise (drain s) = nextPromise s"
  by (simp add: drain_def split: list.splits)

lemma order_inv_drain: "order_inv (drain s) = order_inv s"
  unfolding order_inv_def drain_order drain_nextPromise ..

lemma order_inv_processQueue: "order_inv (processQueue s) = order_inv s"
proof -
  have "order_inv (s\<lparr>isProcessing := True\<rparr>) = order_inv s" by (simp add: order_inv_def)
  then show ?thesis by (simp add: processQueue_def order_inv_drain)
qed

lemma queue_inv_init: "queue_inv (initialize ml (ObjectDetectionService m))"
  by (simp add: queue_inv_def initialize_def ObjectDetectionService_def Let_def)

lemma order_inv_init: "order_inv (initialize ml (ObjectDetectionService m))"
  by (simp add: order_inv_def initialize_def ObjectDetectionService_def Let_def)

lemma settle_inv_init: "settle_inv (initialize ml (ObjectDetectionService m))"
  by (simp add: settle_inv_def initialize_def ObjectDetectionService_def Let_def)

lemma sorted_wrt_tl_part:
  "sorted_wrt P (map f (d @ q)) \<Longrightarrow> sorted_wrt P (map f (d @ tl q))"
  by (cases q) (auto simp: sorted_wrt_append)

lemma order_inv_enqueue:
  assumes "order_inv s"
  shows "order_inv (snd (detectServerSide img s))"
proof -
  let ?q = "if maxQueueSize s \<le> length (processingQueue s)
            then tl (processingQueue s) else processingQueue s"
  let ?out = "if maxQueueSize s \<le> length (processingQueue s)
              then take 1 (processingQueue s) else []"
  let ?s1 = "s\<lparr> processingQueue := ?q @ [\<lparr> imageData = img, promise = nextPromise s \<rparr>],
                evicted := evicted s @ ?out,
                nextPromise := nextPromise s + 1 \<rparr>"
  have sub: "set ?q \<subseteq> set (processingQueue s)"
    by (cases "processingQueue s") auto
  have srt: "sorted_wrt (<) (map promise (dispatched s @ ?q))"
    using assms by (simp add: order_inv_def sorted_wrt_tl_part del: map_append)
  have bnd: "\<forall>e \<in> set (dispatched s @ ?q). promise e < nextPromise s"
    using assms sub unfolding order_inv_def by auto
  have "order_inv ?s1"
    unfolding order_inv_def using srt bnd
    by (auto simp: sorted_wrt_append less_Suc_eq)
  then have "order_inv (processQueue ?s1)" by (simp only: order_inv_processQueue)
  then show ?thesis by (simp add: detectServerSide_def Let_def)
qed

lemma order_inv_resume:
  assumes "order_inv s"
  shows "order_inv (snd (resume i c r1 r2 s))"
proof (cases "i < length (running s)")
  case False
  with assms show ?thesis by (simp add: resume_def)
next
  case True
  obtain res logs where ri: "runInference (session s) c r1 r2 = (res, logs)"
    by (cases "runInference (session s) c r1 r2")
  let ?s1 = "s\<lparr> running := remove_nth i (running s),
       settled := settled s @ [(promise (running s ! i),
          case res of Inr d \<Rightarrow> Resolved d | Inl err \<Rightarrow> Rejected err)],
       console := console s @ logs \<rparr>"
  have "order_inv ?s1" using assms by (simp add: order_inv_def)
  then have "order_inv (drain ?s1)" by (simp only: order_inv_drain)
  then show ?thesis using True ri by (simp add: resume_def Let_def)
qed

lemma queue_inv_enqueue:
  assumes "queue_inv s"
  shows "queue_inv (snd (detectServerSide img s))"
proof (cases "processingQueue s")
  case Nil
  with assms show ?thesis
    by (auto simp: queue_inv_def detectServerSide_def processQueue_def drain_def Let_def)
next
  case (Cons e q)
  with assms show ?thesis
    by (auto simp: queue_inv_def detectServerSide_def processQueue_def drain_def Let_def)
qed

lemma queue_inv_resume:
  assumes "queue_inv s"
  shows "queue_inv (snd (resume i c r1 r2 s))"
proof (cases "i < length (running s)")
  case False
  with assms show ?thesis by (simp add: resume_def)
next
  case True
  with assms obtain e where r: "running s = [e]" and i: "i = 0"
    by (cases "running s") (auto simp: queue_inv_def)
  show ?thesis
  proof (cases "processingQueue s")
    case Nil
    with assms r i show ?thesis
      by (auto simp: queue_inv_def resume_def drain_def remove_nth_def Let_def
          split: prod.splits)
  next
    case (Cons e' q)
    with assms r i show ?thesis
      by (auto simp: queue_inv_def resume_def drain_def remove_nth_def Let_def
          split: prod.splits)
  qed
qed

lemma settle_inv_enqueue:
  assumes "queue_inv s" "settle_inv s"
  shows "settle_inv (snd (detectServerSide img s))"
proof (cases "processingQueue s")
  case Nil
  with assms show ?thesis
    by (auto simp: queue_inv_def settle_inv_def detectServerSide_def processQueue_def
        drain_def Let_def)
next
  case (Cons e q)
  with assms show ?thesis
    by (auto simp: queue_inv_def settle_inv_def detectServerSide_def processQueue_def
        drain_def Let_def)
qed

lemma settle_inv_resume:
  assumes "queue_inv s" "settle_inv s"
  shows "settle_inv (snd (resume i c r1 r2 s))"
proof (cases "i < length (running s)")
  case False
  with assms show ?thesis by (simp add: resume_def)
next
  case True
  with assms obtain e where r: "running s = [e]" and i: "i = 0"
    by (cases "running s") (auto simp: queue_inv_def)
  show ?thesis
  proof (cases "processingQueue s")
    case Nil
    with assms r i show ?thesis
      by (auto simp: settle_inv_def resume_def drain_def remove_nth_def Let_def
          split: prod.splits)
  next
    case (Cons e' q)
    with assms r i show ?thesis
      by (auto simp: settle_inv_def resume_def drain_def remove_nth_def Let_def
          split: prod.splits)
  qed
qed


lemma conserve_inv_init: "conserve_inv (initialize ml (ObjectDetectionService m))"
  by (simp add: conserve_inv_def initialize_def ObjectDetectionService_def Let_def)

lemma conserve_inv_drain: "conserve_inv (drain s) = conserve_inv s"
  by (simp add: conserve_inv_def drain_def split: list.splits)

lemma conserve_inv_processQueue: "conserve_inv (processQueue s) = conserve_inv s"
proof -
  have "conserve_inv (s\<lparr>isProcessing := True\<rparr>) = conserve_inv s" by (simp add: conserve_inv_def)
  then show ?thesis by (simp add: processQueue_def conserve_inv_drain)
qed

lemma mset_shift: "mset (map f (tl q)) + mset (map f (take 1 q)) = mset (map f q)"
  by (cases q) simp_all

lemma conserve_inv_enqueue:
  assumes "conserve_inv s"
  shows "conserve_inv (snd (detectServerSide img s))"
proof -
  let ?full = "maxQueueSize s \<le> length (processingQueue s)"
  let ?q = "if ?full then tl (processingQueue s) else processingQueue s"
  let ?out = "if ?full then take 1 (processingQueue s) else []"
  let ?s1 = "s\<lparr> processingQueue := ?q @ [\<lparr> imageData = img, promise = nextPromise s \<rparr>],
                evicted := evicted s @ ?out,
                nextPromise := nextPromise s + 1 \<rparr>"
  have split: "mset (map promise ?q) + mset (map promise ?out) = mset (map promise (processingQueue s))"
    by (cases "processingQueue s") auto
  have "mset (map promise (dispatched s @ (?q @ [\<lparr> imageData = img, promise = nextPromise s \<rparr>])
               @ (evicted s @ ?out)))
        = mset (map promise (dispatched s)) + (mset (map promise ?q) + mset (map promise ?out))
          + mset (map promise (evicted s)) + {#nextPromise s#}"
    by (simp only: map_append mset_append list.map mset.simps entry.simps) (simp add: ac_simps)
  also have "\<dots> = mset (map promise (dispatched s @ processingQueue s @ evicted s)) + {#nextPromise s#}"
    by (simp only: split) simp
  also have "\<dots> = mset [0..<nextPromise s] + {#nextPromise s#}"
    using assms by (simp only: conserve_inv_def)
  also have "\<dots> = mset [0..<Suc (nextPromise s)]" by simp
  finally have "conserve_inv ?s1" by (simp add: conserve_inv_def)
  then have "conserve_inv (processQueue ?s1)" by (simp only: conserve_inv_processQueue)
  then show ?thesis by (simp add: detectServerSide_def Let_def)
qed

lemma conserve_inv_resume:
  assumes "conserve_inv s"
  shows "conserve_inv (snd (resume i c r1 r2 s))"
proof (cases "i < length (running s)")
  case False
  with assms show ?thesis by (simp add: resume_def)
next
  case True
  obtain res logs where ri: "runInference (session s) c r1 r2 = (res, logs)"
    by (cases "runInference (session s) c r1 r2")
  let ?s1 = "s\<lparr> running := remove_nth i (running s),
       settled := settled s @ [(promise (running s ! i),
          case res of Inr d \<Rightarrow> Resolved d | Inl err \<Rightarrow> Rejected err)],
       console := console s @ logs \<rparr>"
  have "conserve_inv ?s1" using assms by (simp add: conserve_inv_def)
  then have "conserve_inv (drain ?s1)" by (simp only: conserve_inv_drain)
  then show ?thesis using True ri by (simp add: resume_def Let_def)
qed

lemma service_inv_step: "service_inv s \<Longrightarrow> service_inv (step ev s)"
  by (cases ev)
     (simp_all add: service_inv_def queue_inv_enqueue queue_inv_resume order_inv_enqueue
        order_inv_resume settle_inv_enqueue settle_inv_resume conserve_inv_enqueue
        conserve_inv_resume)

lemma service_inv_exec: "service_inv s \<Longrightarrow> service_inv (exec evs s)"
  unfolding exec_def by (induction evs arbitrary: s) (simp_all add: service_inv_step)

lemma service_inv_reachable: "service_inv (exec evs (initialize ml (ObjectDetectionService m)))"
  by (rule service_inv_exec)
     (simp add: service_inv_def queue_inv_init order_inv_init settle_inv_init conserve_inv_init)

lemma drain_maxQueueSize: "maxQueueSize (drain s) = maxQueueSize s"
  by (simp add: drain_def split: list.splits)

text \<open>
  C1. After any sequence of \<open>detectServerSide\<close> calls and completions on a service, the
  queue holds at most \<open>maxQueueSize\<close> entries, and \<open>maxQueueSize\<close> is 10. A call that
  finds the queue full removes the oldest queued entry and then appends the new one.
\<close>

theorem queue_depth_bounded:
  "length (processingQueue (exec evs (initialize ml (ObjectDetectionService m))))
     \<le> maxQueueSize (exec evs (initialize ml (ObjectDetectionService m)))
   \<and> maxQueueSize (exec evs (initialize ml (ObjectDetectionService m))) = 10
   \<and> (maxQueueSize (exec evs (initialize ml (ObjectDetectionService m)))
        \<le> length (processingQueue (exec evs (initialize ml (ObjectDetectionService m))))
      \<longrightarrow> processingQueue (snd (detectServerSide img (exec evs (initialize ml (ObjectDetectionService m)))))
          = tl (processingQueue (exec evs (initialize ml (ObjectDetectionService m))))
            @ [\<lparr> imageData = img,
                 promise = nextPromise (exec evs (initialize ml (ObjectDetectionService m))) \<rparr>])"
proof -
  let ?s = "exec evs (initialize ml (ObjectDetectionService m))"
  have inv: "queue_inv ?s" using service_inv_reachable [of evs ml m] by (simp add: service_inv_def)
  have a: "length (processingQueue ?s) \<le> maxQueueSize ?s" and b: "maxQueueSize ?s = 10"
    using inv by (simp_all add: queue_inv_def)
  have c: "processingQueue (snd (detectServerSide img ?s))
           = tl (processingQueue ?s) @ [\<lparr> imageData = img, promise = nextPromise ?s \<rparr>]"
    if full: "maxQueueSize ?s \<le> length (processingQueue ?s)"
  proof -
    from full b have "processingQueue ?s \<noteq> []" by auto
    with inv have "isProcessing ?s" unfolding queue_inv_def by blast
    with full show ?thesis by (simp add: detectServerSide_def processQueue_def Let_def)
  qed
  from a b c show ?thesis by blast
qed

lemmas run_simps = exec_def detectServerSide_def processQueue_def drain_def resume_def
  runInference_def remove_nth_def getMockDetections_def mockDetections_def
  initialize_def ObjectDetectionService_def Let_def eval_nat_numeral

theorem queue_depth_bounded_witness:
  "maxQueueSize (exec (replicate 11 (Enqueue ''f'')) (initialize True (ObjectDetectionService ''server'')))
     \<le> length (processingQueue (exec (replicate 11 (Enqueue ''f'')) (initialize True (ObjectDetectionService ''server''))))
   \<and> map promise (processingQueue (snd (detectServerSide ''g''
         (exec (replicate 11 (Enqueue ''f'')) (initialize True (ObjectDetectionService ''server''))))))
       = [2, 3, 4, 5, 6, 7, 8, 9, 10, 11]"
proof -
  let ?s = "exec (replicate 11 (Enqueue ''f'')) (initialize True (ObjectDetectionService ''server''))"
  have q: "map promise (processingQueue ?s) = [1, 2, 3, 4, 5, 6, 7, 8, 9, 10]"
    by (simp add: run_simps)
  have n: "nextPromise ?s = 11" by (simp add: run_simps)
  have l: "length (processingQueue ?s) = 10"
    using arg_cong [OF q, of length] by simp
  have m: "maxQueueSize ?s = 10" by (simp add: run_simps)
  have "processingQueue (snd (detectServerSide ''g'' ?s))
        = tl (processingQueue ?s) @ [\<lparr> imageData = ''g'', promise = nextPromise ?s \<rparr>]"
    using queue_depth_bounded [of "replicate 11 (Enqueue ''f'')" True "''server''" "''g''"] l m
    by simp
  then have "map promise (processingQueue (snd (detectServerSide ''g'' ?s)))
        = tl (map promise (processingQueue ?s)) @ [nextPromise ?s]"
    by (simp add: map_tl)
  with q n l m show ?thesis by simp
qed


section \<open>The order of dispatch\<close>

lemma processQueue_nextPromise: "nextPromise (processQueue s) = nextPromise s"
  by (simp add: processQueue_def drain_nextPromise)

lemma running_single:
  assumes "queue_inv s" "running s \<noteq> []"
  obtains e where "running s = [e]"
  using assms by (cases "running s") (auto simp: queue_inv_def)

text \<open>The completion of the running inference settles its promise and takes the oldest
  queued entry, if there is one.\<close>

lemma complete_step:
  assumes "queue_inv s" "running s \<noteq> []"
  shows "dispatched (step (Complete 0 c r1 r2) s) = dispatched s @ take 1 (processingQueue s)"
    and "processingQueue (step (Complete 0 c r1 r2) s) = drop 1 (processingQueue s)"
    and "running (step (Complete 0 c r1 r2) s) = take 1 (processingQueue s)"
    and "map fst (settled (step (Complete 0 c r1 r2) s))
         = map fst (settled s) @ map promise (running s)"
    and "evicted (step (Complete 0 c r1 r2) s) = evicted s"
proof -
  from assms obtain e where r: "running s = [e]" by (rule running_single)
  show "dispatched (step (Complete 0 c r1 r2) s) = dispatched s @ take 1 (processingQueue s)"
    using r by (cases "processingQueue s")
      (simp_all add: resume_def drain_def remove_nth_def Let_def split: prod.splits)
  show "processingQueue (step (Complete 0 c r1 r2) s) = drop 1 (processingQueue s)"
    using r by (cases "processingQueue s")
      (simp_all add: resume_def drain_def remove_nth_def Let_def split: prod.splits)
  show "running (step (Complete 0 c r1 r2) s) = take 1 (processingQueue s)"
    using r by (cases "processingQueue s")
      (simp_all add: resume_def drain_def remove_nth_def Let_def split: prod.splits)
  show "map fst (settled (step (Complete 0 c r1 r2) s))
        = map fst (settled s) @ map promise (running s)"
    using r by (cases "processingQueue s")
      (simp_all add: resume_def drain_def remove_nth_def Let_def split: prod.splits)
  show "evicted (step (Complete 0 c r1 r2) s) = evicted s"
    using r by (cases "processingQueue s")
      (simp_all add: resume_def drain_def remove_nth_def Let_def split: prod.splits)
qed

text \<open>With no further calls, one completion more than there are queued entries
  dispatches the whole queue, in its order, and leaves the service idle.\<close>

lemma drain_out:
  assumes "queue_inv s"
  shows "dispatched (exec (replicate (Suc (length (processingQueue s))) (Complete 0 c r1 r2)) s)
           = dispatched s @ processingQueue s
       \<and> processingQueue (exec (replicate (Suc (length (processingQueue s))) (Complete 0 c r1 r2)) s) = []
       \<and> running (exec (replicate (Suc (length (processingQueue s))) (Complete 0 c r1 r2)) s) = []"
  using assms
proof (induction "processingQueue s" arbitrary: s)
  case Nil
  show ?case
  proof (cases "running s")
    case Nil
    with \<open>[] = processingQueue s\<close> [symmetric] show ?thesis
      by (simp add: exec_def resume_def)
  next
    case (Cons e es)
    then have ne: "running s \<noteq> []" by simp
    from Nil.prems ne obtain e' where r: "running s = [e']" by (rule running_single)
    with \<open>[] = processingQueue s\<close> [symmetric] show ?thesis
      by (simp add: exec_def resume_def drain_def remove_nth_def Let_def split: prod.splits)
  qed
next
  case (Cons x q)
  let ?s1 = "step (Complete 0 c r1 r2) s"
  have qs: "processingQueue s = x # q" using Cons.hyps(2) by simp
  then have "isProcessing s" using Cons.prems unfolding queue_inv_def by auto
  then have ne: "running s \<noteq> []" using Cons.prems unfolding queue_inv_def by blast
  have inv1: "queue_inv ?s1" using Cons.prems by (simp add: queue_inv_resume)
  have q1: "processingQueue ?s1 = q" using complete_step(2) [OF Cons.prems ne] qs by simp
  have d1: "dispatched ?s1 = dispatched s @ [x]" using complete_step(1) [OF Cons.prems ne] qs by simp
  let ?E = "exec (replicate (Suc (length q)) (Complete 0 c r1 r2)) ?s1"
  have ih: "dispatched (exec (replicate (Suc (length (processingQueue ?s1))) (Complete 0 c r1 r2)) ?s1)
              = dispatched ?s1 @ processingQueue ?s1
          \<and> processingQueue (exec (replicate (Suc (length (processingQueue ?s1))) (Complete 0 c r1 r2)) ?s1) = []
          \<and> running (exec (replicate (Suc (length (processingQueue ?s1))) (Complete 0 c r1 r2)) ?s1) = []"
    by (rule Cons.hyps(1) [OF q1 [symmetric] inv1])
  then have ih': "dispatched ?E = (dispatched s @ [x]) @ q \<and> processingQueue ?E = [] \<and> running ?E = []"
    by (simp only: q1 d1)
  have unf: "exec (replicate (Suc (length (x # q))) (Complete 0 c r1 r2)) s = ?E"
    by (simp add: exec_def)
  show ?case unfolding qs unf using ih' by (simp only: append_assoc append_Cons append_Nil)
qed

lemma enqueue_idle:
  assumes "queue_inv s" "\<not> isProcessing s"
  shows "dispatched (snd (detectServerSide img s))
           = dispatched s @ [\<lparr> imageData = img, promise = nextPromise s \<rparr>]
       \<and> running (snd (detectServerSide img s)) = [\<lparr> imageData = img, promise = nextPromise s \<rparr>]"
proof -
  have q: "processingQueue s = []" and r: "running s = []" and m: "maxQueueSize s = 10"
    using assms unfolding queue_inv_def by auto
  show ?thesis using assms(2) q r m
    by (simp add: detectServerSide_def processQueue_def drain_def Let_def)
qed

lemma enqueue_busy:
  assumes "isProcessing s"
  shows "dispatched (snd (detectServerSide img s)) = dispatched s
       \<and> running (snd (detectServerSide img s)) = running s"
  using assms by (simp add: detectServerSide_def processQueue_def Let_def)

text \<open>An entry is not dispatched while an earlier one, not evicted, is still waiting.\<close>

lemma fifo_order:
  assumes o: "order_inv s" and cv: "conserve_inv s"
    and ab: "a < b" and b: "b \<in> promise ` set (dispatched s)"
    and a: "a \<notin> promise ` set (evicted s)"
  shows "\<exists>k l. k < l \<and> l < length (dispatched s)
           \<and> promise (dispatched s ! k) = a \<and> promise (dispatched s ! l) = b"
proof -
  let ?d = "map promise (dispatched s)" and ?q = "map promise (processingQueue s)"
  have srt: "sorted_wrt (<) (?d @ ?q)" using o by (simp add: order_inv_def)
  have "b < nextPromise s" using o b unfolding order_inv_def by auto
  with ab have "a \<in> set [0..<nextPromise s]" by simp
  then have "a \<in># mset [0..<nextPromise s]" by (simp only: set_mset_mset)
  then have "a \<in># mset (map promise (dispatched s @ processingQueue s @ evicted s))"
    using cv by (simp only: conserve_inv_def)
  then have "a \<in> set ?d \<or> a \<in> set ?q" using a by auto
  moreover have "a \<notin> set ?q"
  proof
    assume "a \<in> set ?q"
    moreover have "b \<in> set ?d" using b by simp
    ultimately have "b < a" using srt by (auto simp: sorted_wrt_append)
    with ab show False by simp
  qed
  ultimately have "a \<in> set ?d" by blast
  then obtain k where k: "k < length ?d" "?d ! k = a" by (auto simp: in_set_conv_nth)
  from b have "b \<in> set ?d" by simp
  then obtain l where l: "l < length ?d" "?d ! l = b" by (auto simp: in_set_conv_nth)
  have sd: "sorted_wrt (<) ?d" using srt by (simp add: sorted_wrt_append)
  have "k < l"
  proof (rule ccontr)
    assume "\<not> k < l"
    then consider "l < k" | "l = k" by linarith
    then show False
    proof cases
      case 1
      then have "?d ! l < ?d ! k" using sd k(1) by (simp add: sorted_wrt_iff_nth_less)
      with k l ab show False by simp
    next
      case 2
      with k l ab show False by simp
    qed
  qed
  with k l show ?thesis by auto
qed

text \<open>
  C6. After any sequence of calls and completions: at most one activation of
  \<open>processQueue\<close> is suspended in \<open>runInference\<close>; every dispatched entry but the running
  one has been settled, in dispatch order; the entries dispatched, followed by those still
  queued, are in the order of admission (promise numbers are given out in that order, one
  per call), and every entry admitted is dispatched, queued or evicted. A call on an idle
  service dispatches its entry at once, a call on a busy one dispatches nothing. The
  completion of the running inference settles its promise and only then takes the oldest
  queued entry, and as many completions as there are entries waiting and running dispatch
  the whole queue in its order. So of two entries that are not evicted, the later one is
  dispatched only after the earlier one.
\<close>

theorem drain_fifo_single_flight:
  assumes "S = exec evs (initialize ml (ObjectDetectionService m))"
  shows "length (running S) \<le> 1
   \<and> map promise (dispatched S) = map fst (settled S) @ map promise (running S)
   \<and> sorted_wrt (<) (map promise (dispatched S @ processingQueue S))
   \<and> mset (map promise (dispatched S @ processingQueue S @ evicted S)) = mset [0..<nextPromise S]
   \<and> fst (detectServerSide img S) = nextPromise S
   \<and> nextPromise (snd (detectServerSide img S)) = nextPromise S + 1
   \<and> (\<not> isProcessing S \<longrightarrow>
        dispatched (snd (detectServerSide img S))
          = dispatched S @ [\<lparr> imageData = img, promise = nextPromise S \<rparr>]
        \<and> running (snd (detectServerSide img S)) = [\<lparr> imageData = img, promise = nextPromise S \<rparr>])
   \<and> (isProcessing S \<longrightarrow>
        dispatched (snd (detectServerSide img S)) = dispatched S
        \<and> running (snd (detectServerSide img S)) = running S)
   \<and> (running S \<noteq> [] \<longrightarrow>
        dispatched (step (Complete 0 c r1 r2) S) = dispatched S @ take 1 (processingQueue S)
        \<and> processingQueue (step (Complete 0 c r1 r2) S) = drop 1 (processingQueue S)
        \<and> running (step (Complete 0 c r1 r2) S) = take 1 (processingQueue S)
        \<and> map fst (settled (step (Complete 0 c r1 r2) S))
          = map fst (settled S) @ map promise (running S)
        \<and> evicted (step (Complete 0 c r1 r2) S) = evicted S)
   \<and> dispatched (exec (replicate (Suc (length (processingQueue S))) (Complete 0 c r1 r2)) S)
       = dispatched S @ processingQueue S
   \<and> processingQueue (exec (replicate (Suc (length (processingQueue S))) (Complete 0 c r1 r2)) S) = []
   \<and> running (exec (replicate (Suc (length (processingQueue S))) (Complete 0 c r1 r2)) S) = []
   \<and> (a < b \<and> b \<in> promise ` set (dispatched S) \<and> a \<notin> promise ` set (evicted S) \<longrightarrow>
        (\<exists>k l. k < l \<and> l < length (dispatched S)
           \<and> promise (dispatched S ! k) = a \<and> promise (dispatched S ! l) = b))"
proof -
  have inv: "queue_inv S" "order_inv S" "settle_inv S" "conserve_inv S"
    using service_inv_reachable [of evs ml m] assms by (simp_all add: service_inv_def)
  have c1: "length (running S) \<le> 1" using inv(1) by (simp add: queue_inv_def)
  have c2: "map promise (dispatched S) = map fst (settled S) @ map promise (running S)"
    using inv(3) by (simp add: settle_inv_def)
  have c3: "sorted_wrt (<) (map promise (dispatched S @ processingQueue S))"
    using inv(2) unfolding order_inv_def by blast
  have c4: "mset (map promise (dispatched S @ processingQueue S @ evicted S)) = mset [0..<nextPromise S]"
    using inv(4) by (simp only: conserve_inv_def)
  have c5: "fst (detectServerSide img S) = nextPromise S"
    by (simp add: detectServerSide_def Let_def)
  have c6: "nextPromise (snd (detectServerSide img S)) = nextPromise S + 1"
    by (simp add: detectServerSide_def Let_def processQueue_nextPromise)
  note c7 = enqueue_idle [OF inv(1), of img]
  note c8 = enqueue_busy [of S img]
  note c9 = complete_step [OF inv(1), of c r1 r2]
  note c10 = drain_out [OF inv(1), of c r1 r2]
  note c11 = fifo_order [OF inv(2) inv(4), of a b]
  from c1 c2 c3 c4 c5 c6 c7 c8 c9 c10 c11 show ?thesis by blast
qed

theorem drain_fifo_single_flight_witness:
  "isProcessing (exec [Enqueue ''F1'', Enqueue ''F2'', Enqueue ''F3'']
      (initialize True (ObjectDetectionService ''server'')))
   \<and> running (exec [Enqueue ''F1'', Enqueue ''F2'', Enqueue ''F3'']
      (initialize True (ObjectDetectionService ''server''))) \<noteq> []
   \<and> map promise (dispatched (step (Complete 0 Run_returns (1/2) (1/2))
      (exec [Enqueue ''F1'', Enqueue ''F2'', Enqueue ''F3'']
         (initialize True (ObjectDetectionService ''server''))))) = [0, 1]
   \<and> map promise (dispatched (exec (replicate 3 (Complete 0 Run_returns (1/2) (1/2)))
      (exec [Enqueue ''F1'', Enqueue ''F2'', Enqueue ''F3'']
         (initialize True (ObjectDetectionService ''server''))))) = [0, 1, 2]
   \<and> \<not> isProcessing (exec [] (initialize True (ObjectDetectionService ''server'')))
   \<and> map promise (dispatched (snd (detectServerSide ''F1''
        (exec [] (initialize True (ObjectDetectionService ''server'')))))) = [0]
   \<and> (0::nat) < 1
   \<and> 1 \<in> promise ` set (dispatched (exec [Enqueue ''F1'', Enqueue ''F2'', Complete 0 Run_returns (1/2) (1/2)]
         (initialize True (ObjectDetectionService ''server''))))
   \<and> 0 \<notin> promise ` set (evicted (exec [Enqueue ''F1'', Enqueue ''F2'', Complete 0 Run_returns (1/2) (1/2)]
         (initialize True (ObjectDetectionService ''server''))))
   \<and> (\<exists>k l. k < l
        \<and> l < length (dispatched (exec [Enqueue ''F1'', Enqueue ''F2'', Complete 0 Run_returns (1/2) (1/2)]
             (initialize True (ObjectDetectionService ''server''))))
        \<and> promise (dispatched (exec [Enqueue ''F1'', Enqueue ''F2'', Complete 0 Run_returns (1/2) (1/2)]
             (initialize True (ObjectDetectionService ''server''))) ! k) = 0
        \<and> promise (dispatched (exec [Enqueue ''F1'', Enqueue ''F2'', Complete 0 Run_returns (1/2) (1/2)]
             (initialize True (ObjectDetectionService ''server''))) ! l) = 1)"
proof -
  let ?i = "initialize True (ObjectDetectionService ''server'')"
  let ?s3 = "exec [Enqueue ''F1'', Enqueue ''F2'', Enqueue ''F3''] ?i"
  let ?s0 = "exec [] ?i"
  let ?s2 = "exec [Enqueue ''F1'', Enqueue ''F2'', Complete 0 Run_returns (1/2) (1/2)] ?i"
  have p3: "isProcessing ?s3" by (simp add: run_simps)
  have r3: "running ?s3 \<noteq> []" by (simp add: run_simps)
  have d3: "map promise (dispatched ?s3) = [0]" by (simp add: run_simps)
  have q3: "map promise (processingQueue ?s3) = [1, 2]" by (simp add: run_simps)
  have l3: "Suc (length (processingQueue ?s3)) = 3"
    using arg_cong [OF q3, of length] by simp
  note t3 = drain_fifo_single_flight [OF refl, of "[Enqueue ''F1'', Enqueue ''F2'', Enqueue ''F3'']"
      True "''server''" "''x''" Run_returns "1/2" "1/2" 0 0]
  have "dispatched (step (Complete 0 Run_returns (1/2) (1/2)) ?s3)
          = dispatched ?s3 @ take 1 (processingQueue ?s3)"
    using t3 r3 by blast
  then have "map promise (dispatched (step (Complete 0 Run_returns (1/2) (1/2)) ?s3))
          = map promise (dispatched ?s3) @ take 1 (map promise (processingQueue ?s3))"
    by (simp add: take_map)
  then have a: "map promise (dispatched (step (Complete 0 Run_returns (1/2) (1/2)) ?s3)) = [0, 1]"
    unfolding d3 q3 by simp
  have "dispatched (exec (replicate (Suc (length (processingQueue ?s3)))
            (Complete 0 Run_returns (1/2) (1/2))) ?s3)
          = dispatched ?s3 @ processingQueue ?s3"
    using t3 by blast
  then have "map promise (dispatched (exec (replicate 3 (Complete 0 Run_returns (1/2) (1/2))) ?s3))
          = map promise (dispatched ?s3) @ map promise (processingQueue ?s3)"
    unfolding l3 by simp
  then have b: "map promise (dispatched (exec (replicate 3 (Complete 0 Run_returns (1/2) (1/2))) ?s3))
          = [0, 1, 2]"
    unfolding d3 q3 by simp
  have p0: "\<not> isProcessing ?s0" by (simp add: run_simps)
  have n0: "nextPromise ?s0 = 0" "dispatched ?s0 = []" by (simp_all add: run_simps)
  note t0 = drain_fifo_single_flight [OF refl, of "[]" True "''server''" "''F1''"
      Run_returns "1/2" "1/2" 0 0]
  have "dispatched (snd (detectServerSide ''F1'' ?s0))
          = dispatched ?s0 @ [\<lparr> imageData = ''F1'', promise = nextPromise ?s0 \<rparr>]"
    using t0 p0 by blast
  then have c: "map promise (dispatched (snd (detectServerSide ''F1'' ?s0))) = [0]"
    unfolding n0 by simp
  have d2: "map promise (dispatched ?s2) = [0, 1]" by (simp add: run_simps)
  have e2: "evicted ?s2 = []" by (simp add: run_simps)
  have in2: "1 \<in> promise ` set (dispatched ?s2)"
    using arg_cong [OF d2, of set] by (simp del: set_map add: set_map [symmetric])
  have out2: "0 \<notin> promise ` set (evicted ?s2)" unfolding e2 by simp
  note t2 = drain_fifo_single_flight [OF refl,
      of "[Enqueue ''F1'', Enqueue ''F2'', Complete 0 Run_returns (1/2) (1/2)]"
      True "''server''" "''x''" Run_returns "1/2" "1/2" 0 1]
  have f: "\<exists>k l. k < l \<and> l < length (dispatched ?s2)
        \<and> promise (dispatched ?s2 ! k) = 0 \<and> promise (dispatched ?s2 ! l) = 1"
    using t2 in2 out2 by blast
  from p3 r3 a b p0 c in2 out2 f show ?thesis by simp
qed


section \<open>A failing inference\<close>

text \<open>
  C2. When the collaborator throws while a session is held, \<open>runInference\<close> logs the error
  and the caller's promise is resolved, not rejected, with the mock detections that
  \<open>getMockDetections\<close> draws: a sublist of the two mock detections, not always the empty
  list.
\<close>

theorem inference_failure_outcome:
  assumes "i < length (running s)" "session s \<noteq> None"
  shows "fst (resume i (Run_throws err) r1 r2 s)
           = Some (promise (running s ! i), Resolved (getMockDetections r1 r2))
       \<and> settled (snd (resume i (Run_throws err) r1 r2 s))
           = settled s @ [(promise (running s ! i), Resolved (getMockDetections r1 r2))]
       \<and> console (snd (resume i (Run_throws err) r1 r2 s))
           = console s @ [''Inference error: '' @ err]
       \<and> set (getMockDetections r1 r2) \<subseteq> set mockDetections"
proof -
  have dr: "settled (drain t) = settled t" "console (drain t) = console t" for t
    by (simp_all add: drain_def split: list.splits)
  have sub: "set (getMockDetections r1 r2) \<subseteq> set mockDetections"
    by (auto simp: getMockDetections_def dest: set_zip_leftD)
  show ?thesis using assms sub
    by (auto simp: resume_def runInference_def Let_def dr split: option.splits)
qed

theorem inference_failure_outcome_witness:
  "0 < length (running (exec [Enqueue ''F1''] (initialize True (ObjectDetectionService ''server''))))
   \<and> session (exec [Enqueue ''F1''] (initialize True (ObjectDetectionService ''server''))) \<noteq> None
   \<and> fst (resume 0 (Run_throws ''boom'') (1/2) (1/10)
        (exec [Enqueue ''F1''] (initialize True (ObjectDetectionService ''server''))))
     = Some (0, Resolved [\<lparr> label = ''person'', score = 0.85, xmin = 0.2, ymin = 0.1,
                            xmax = 0.6, ymax = 0.8 \<rparr>])
   \<and> console (snd (resume 0 (Run_throws ''boom'') (1/2) (1/10)
        (exec [Enqueue ''F1''] (initialize True (ObjectDetectionService ''server'')))))
     = [''Inference error: boom'']"
proof -
  let ?s = "exec [Enqueue ''F1''] (initialize True (ObjectDetectionService ''server''))"
  have r: "running ?s = [\<lparr> imageData = ''F1'', promise = 0 \<rparr>]" by (simp add: run_simps)
  have s: "session ?s = Some InferenceSession" by (simp add: run_simps)
  have s': "session ?s \<noteq> None" using s by simp
  have c: "console ?s = []" by (simp add: run_simps)
  have g: "getMockDetections (1/2) (1/10)
           = [\<lparr> label = ''person'', score = 0.85, xmin = 0.2, ymin = 0.1, xmax = 0.6, ymax = 0.8 \<rparr>]"
    by (simp add: getMockDetections_def mockDetections_def)
  have i: "0 < length (running ?s)" using r by simp
  show ?thesis
    using inference_failure_outcome [OF i s', of "''boom''" "1/2" "1/10"] r s c g by simp
qed

text \<open>
  C2, the claim as first stated fails: with a session held and both random draws above 0.3, a
  throwing collaborator leaves the caller's promise resolved with both mock detections, not
  with the empty list.
\<close>

theorem inference_failure_counterexample:
  "settled (exec [Enqueue ''F1'', Complete 0 (Run_throws ''boom'') (1/2) (1/2)]
             (initialize True (ObjectDetectionService ''server'')))
     = [(0, Resolved mockDetections)]
   \<and> mockDetections \<noteq> []"
  by (simp add: run_simps)


section \<open>Evictions and the metrics collector\<close>

lemmas server_run_simps = server_exec_def Server_def handle_detect_frame_def detectObjects_def
  handle_inference_done_def deliver_def MetricsCollector_def

text \<open>
  C3. Twelve \<^verbatim>\<open>detect-frame\<close> requests reach a server in server mode while the first is
  still being processed. The twelfth finds ten entries queued and evicts the oldest
  (promise 1). No promise has been settled, and the collector's \<open>droppedFrames\<close> and
  \<open>totalFrames\<close> are 0 before and after: the eviction is not counted.
\<close>

theorem eviction_not_counted:
  "map promise (processingQueue (detectionService
      (server_exec (replicate 11 (Detect_frame 0 ''f'' ''id'' 0 (1/2) (1/2))) (Server ''server'' 0 True))))
     = [1, 2, 3, 4, 5, 6, 7, 8, 9, 10]
   \<and> map promise (processingQueue (detectionService
      (server_exec (replicate 12 (Detect_frame 0 ''f'' ''id'' 0 (1/2) (1/2))) (Server ''server'' 0 True))))
     = [2, 3, 4, 5, 6, 7, 8, 9, 10, 11]
   \<and> map promise (evicted (detectionService
      (server_exec (replicate 12 (Detect_frame 0 ''f'' ''id'' 0 (1/2) (1/2))) (Server ''server'' 0 True))))
     = [1]
   \<and> map promise (dispatched (detectionService
      (server_exec (replicate 12 (Detect_frame 0 ''f'' ''id'' 0 (1/2) (1/2))) (Server ''server'' 0 True))))
     = [0]
   \<and> settled (detectionService
      (server_exec (replicate 12 (Detect_frame 0 ''f'' ''id'' 0 (1/2) (1/2))) (Server ''server'' 0 True)))
     = []
   \<and> droppedFrames (metricsCollector
      (server_exec (replicate 11 (Detect_frame 0 ''f'' ''id'' 0 (1/2) (1/2))) (Server ''server'' 0 True)))
     = 0
   \<and> droppedFrames (metricsCollector
      (server_exec (replicate 12 (Detect_frame 0 ''f'' ''id'' 0 (1/2) (1/2))) (Server ''server'' 0 True)))
     = 0
   \<and> totalFrames (metricsCollector
      (server_exec (replicate 12 (Detect_frame 0 ''f'' ''id'' 0 (1/2) (1/2))) (Server ''server'' 0 True)))
     = 0
   \<and> droppedFrames (recordDroppedFrame (metricsCollector
      (server_exec (replicate 11 (Detect_frame 0 ''f'' ''id'' 0 (1/2) (1/2))) (Server ''server'' 0 True))))
     = 1"
  by (simp add: server_run_simps run_simps recordDroppedFrame_def)


section \<open>Rooms and relays\<close>





lemma handle_targeted_eq:
  "handle_targeted k sid targetId payload s =
     (case clients s sid of
        None \<Rightarrow> (s, [])
      | Some c \<Rightarrow>
          (case current_room c of
             None \<Rightarrow> (s, [])
           | Some _ \<Rightarrow> (s, [Emit_to sid targetId (Relayed k sid payload)])))"
  by (cases k)
     (simp_all add: handle_targeted_def handleOffer_def handleAnswer_def
        handleIceCandidate_def handleDataChannelMessage_def split: option.splits)




lemma removeAll_empty_iff: "removeAll c xs = [] \<longleftrightarrow> set xs \<subseteq> {c}"
  by (induction xs) auto

lemma removeFromRoom_last:
  assumes "rooms s r = Some rm" "set (room_clients rm) \<subseteq> {c}"
  shows "rooms (removeFromRoom r c s) r = None"
proof -
  have "removeAll c (room_clients rm) = []" using assms(2) by (simp only: removeAll_empty_iff)
  with assms(1) show ?thesis by (simp add: removeFromRoom_def set_delete_def)
qed



lemma current_room_None: "current_room c = None \<longleftrightarrow> room c = None \<or> room c = Some []"
  by (auto simp: current_room_def split: option.splits)












lemmas sig_simps = sig_exec_def WebRTCSignaling_def handleConnection_def handleRegister_def
  handleJoinRoom_def handleDisconnect_def removeFromRoom_def current_room_def set_add_def
  set_delete_def type_of_def getRoomInfo_def Let_def




text \<open>
  C8. Peers p1 and p2 are in room A and p1 joins room B. \<open>handleJoinRoom\<close> makes p1 leave
  A and join B, tells B that a peer joined and answers p1; it sends no \<^verbatim>\<open>peer-left\<close> to
  room A, where p2 remains. \<open>handleDisconnect\<close> in the same state does send it.
\<close>

theorem join_switch_no_peer_left:
  "snd (handleJoinRoom 3 ''p1'' ''B''
     (sig_exec [Connection ''p1'', Connection ''p2'', Join_room 1 ''p1'' ''A'', Join_room 2 ''p2'' ''A'']
        WebRTCSignaling))
     = [Socket_leave ''p1'' ''A'', Socket_join ''p1'' ''B'',
        Emit_to ''p1'' ''B'' (Peer_joined ''p1'' None), Emit ''p1'' (Room_joined ''B'' [])]
   \<and> rooms (fst (handleJoinRoom 3 ''p1'' ''B''
     (sig_exec [Connection ''p1'', Connection ''p2'', Join_room 1 ''p1'' ''A'', Join_room 2 ''p2'' ''A'']
        WebRTCSignaling))) ''A''
     = Some \<lparr> room_clients = [''p2''], created = 1 \<rparr>
   \<and> rooms (fst (handleJoinRoom 3 ''p1'' ''B''
     (sig_exec [Connection ''p1'', Connection ''p2'', Join_room 1 ''p1'' ''A'', Join_room 2 ''p2'' ''A'']
        WebRTCSignaling))) ''B''
     = Some \<lparr> room_clients = [''p1''], created = 3 \<rparr>
   \<and> snd (handleDisconnect ''p1''
     (sig_exec [Connection ''p1'', Connection ''p2'', Join_room 1 ''p1'' ''A'', Join_room 2 ''p2'' ''A'']
        WebRTCSignaling))
     = [Emit_to ''p1'' ''A'' (Peer_left ''p1'')]"
  by (simp add: sig_simps)

text \<open>
  C9. A targeted message (offer, answer, ICE candidate, data-channel message) from a sender
  that is unknown, or that has no current room (its room is \<^verbatim>\<open>null\<close> or the empty string),
  changes nothing and emits nothing. From a sender with a current room it is emitted once,
  to the target, with the sender's id and the payload as received; nothing is asked of the
  target or of its room.
\<close>

theorem targeted_relay:
  "(clients s sid = None \<longrightarrow> handle_targeted k sid targetId payload s = (s, []))
   \<and> (clients s sid = Some c \<and> current_room c = None
        \<longrightarrow> handle_targeted k sid targetId payload s = (s, []))
   \<and> (clients s sid = Some c \<and> current_room c = Some r
        \<longrightarrow> handle_targeted k sid targetId payload s
            = (s, [Emit_to sid targetId (Relayed k sid payload)]))"
  by (simp add: handle_targeted_eq)

theorem targeted_relay_witness:
  "clients WebRTCSignaling ''x'' = None
   \<and> handle_targeted Offer ''x'' ''b'' ''sdp'' WebRTCSignaling = (WebRTCSignaling, [])
   \<and> clients (sig_exec [Connection ''a''] WebRTCSignaling) ''a'' = Some \<lparr> ctype = None, room = None \<rparr>
   \<and> current_room \<lparr> ctype = None, room = None \<rparr> = None
   \<and> handle_targeted Answer ''a'' ''b'' ''sdp'' (sig_exec [Connection ''a''] WebRTCSignaling)
     = (sig_exec [Connection ''a''] WebRTCSignaling, [])
   \<and> clients (sig_exec [Connection ''a'', Connection ''b'', Join_room 1 ''a'' ''r1'', Join_room 2 ''b'' ''r2'']
        WebRTCSignaling) ''a'' = Some \<lparr> ctype = None, room = Some ''r1'' \<rparr>
   \<and> current_room \<lparr> ctype = None, room = Some ''r1'' \<rparr> = Some ''r1''
   \<and> handle_targeted Ice_candidate ''a'' ''b'' ''cand''
        (sig_exec [Connection ''a'', Connection ''b'', Join_room 1 ''a'' ''r1'', Join_room 2 ''b'' ''r2'']
           WebRTCSignaling)
     = (sig_exec [Connection ''a'', Connection ''b'', Join_room 1 ''a'' ''r1'', Join_room 2 ''b'' ''r2'']
           WebRTCSignaling,
        [Emit_to ''a'' ''b'' (Relayed Ice_candidate ''a'' ''cand'')])"
proof -
  let ?s1 = "sig_exec [Connection ''a''] WebRTCSignaling"
  let ?s2 = "sig_exec [Connection ''a'', Connection ''b'', Join_room 1 ''a'' ''r1'', Join_room 2 ''b'' ''r2'']
               WebRTCSignaling"
  have c0: "clients WebRTCSignaling ''x'' = None" by (simp add: WebRTCSignaling_def)
  have c1: "clients ?s1 ''a'' = Some \<lparr> ctype = None, room = None \<rparr>" by (simp add: sig_simps)
  have c2: "clients ?s2 ''a'' = Some \<lparr> ctype = None, room = Some ''r1'' \<rparr>" by (simp add: sig_simps)
  have k1: "current_room \<lparr> ctype = None, room = None \<rparr> = None" by (simp add: current_room_def)
  have k2: "current_room \<lparr> ctype = None, room = Some ''r1'' \<rparr> = Some ''r1''"
    by (simp add: current_room_def)
  have a: "handle_targeted Offer ''x'' ''b'' ''sdp'' WebRTCSignaling = (WebRTCSignaling, [])"
    using targeted_relay [of WebRTCSignaling "''x''" Offer "''b''" "''sdp''"] c0 by simp
  have b: "handle_targeted Answer ''a'' ''b'' ''sdp'' ?s1 = (?s1, [])"
    using targeted_relay [of ?s1 "''a''" Answer "''b''" "''sdp''" "\<lparr> ctype = None, room = None \<rparr>"] c1 k1
    by simp
  have c: "handle_targeted Ice_candidate ''a'' ''b'' ''cand'' ?s2
           = (?s2, [Emit_to ''a'' ''b'' (Relayed Ice_candidate ''a'' ''cand'')])"
    using targeted_relay [of ?s2 "''a''" Ice_candidate "''b''" "''cand''"
        "\<lparr> ctype = None, room = Some ''r1'' \<rparr>" "''r1''"] c2 k2
    by simp
  from c0 a c1 k1 b c2 k2 c show ?thesis by blast
qed

text \<open>
  C9, the claim as first stated fails: a client that has joined the room whose id is the
  empty string is a member of a room in the map, and its offer is dropped.
\<close>

theorem targeted_relay_counterexample:
  "rooms (sig_exec [Connection ''a'', Join_room 1 ''a'' ''''] WebRTCSignaling) ''''
     = Some \<lparr> room_clients = [''a''], created = 1 \<rparr>
   \<and> clients (sig_exec [Connection ''a'', Join_room 1 ''a'' ''''] WebRTCSignaling) ''a''
     = Some \<lparr> ctype = None, room = Some '''' \<rparr>
   \<and> snd (handle_targeted Offer ''a'' ''b'' ''sdp''
        (sig_exec [Connection ''a'', Join_room 1 ''a'' ''''] WebRTCSignaling)) = []"
  by (simp add: sig_simps handle_targeted_eq)

text \<open>
  C10. A peer whose current room is R (so R is not the empty string), and who is the only
  member of R, joins R again: \<open>removeFromRoom\<close> deletes R, and \<open>handleJoinRoom\<close> then creates
  it anew with the time of the call as its creation time and the peer as its only member;
  the peer is answered with \<^verbatim>\<open>room-joined\<close> and an empty list of other members.
\<close>

theorem rejoin_recreates_room:
  assumes "clients s sid = Some c" "current_room c = Some R"
    and "rooms s R = Some rm" "room_clients rm = [sid]"
  shows "rooms (removeFromRoom R sid s) R = None
       \<and> rooms (fst (handleJoinRoom now sid R s)) R = Some \<lparr> room_clients = [sid], created = now \<rparr>
       \<and> clients (fst (handleJoinRoom now sid R s)) sid = Some c
       \<and> snd (handleJoinRoom now sid R s)
         = [Socket_leave sid R, Socket_join sid R,
            Emit_to sid R (Peer_joined sid (ctype c)), Emit sid (Room_joined R [])]"
proof -
  have del: "rooms (removeFromRoom R sid s) R = None"
    using assms(3,4) by (simp add: removeFromRoom_last)
  have rc: "room c = Some R" using assms(2)
    by (auto simp: current_room_def split: option.splits if_splits)
  have cl: "clients (removeFromRoom R sid s) = clients s"
    using assms(3) by (simp add: removeFromRoom_def Let_def)
  have same: "c\<lparr> room := Some R \<rparr> = c" using rc by simp
  show ?thesis
    using assms(1,2) del cl same
    by (simp add: handleJoinRoom_def Let_def set_add_def)
qed

theorem rejoin_recreates_room_witness:
  "clients (sig_exec [Connection ''a'', Register ''a'' ''phone'', Join_room 1 ''a'' ''main-room'']
      WebRTCSignaling) ''a'' = Some \<lparr> ctype = Some ''phone'', room = Some ''main-room'' \<rparr>
   \<and> current_room \<lparr> ctype = Some ''phone'', room = Some ''main-room'' \<rparr> = Some ''main-room''
   \<and> rooms (sig_exec [Connection ''a'', Register ''a'' ''phone'', Join_room 1 ''a'' ''main-room'']
      WebRTCSignaling) ''main-room'' = Some \<lparr> room_clients = [''a''], created = 1 \<rparr>
   \<and> rooms (fst (handleJoinRoom 5 ''a'' ''main-room''
        (sig_exec [Connection ''a'', Register ''a'' ''phone'', Join_room 1 ''a'' ''main-room'']
           WebRTCSignaling))) ''main-room''
     = Some \<lparr> room_clients = [''a''], created = 5 \<rparr>
   \<and> snd (handleJoinRoom 5 ''a'' ''main-room''
        (sig_exec [Connection ''a'', Register ''a'' ''phone'', Join_room 1 ''a'' ''main-room'']
           WebRTCSignaling))
     = [Socket_leave ''a'' ''main-room'', Socket_join ''a'' ''main-room'',
        Emit_to ''a'' ''main-room'' (Peer_joined ''a'' (Some ''phone'')),
        Emit ''a'' (Room_joined ''main-room'' [])]"
proof -
  let ?s = "sig_exec [Connection ''a'', Register ''a'' ''phone'', Join_room 1 ''a'' ''main-room'']
              WebRTCSignaling"
  have c: "clients ?s ''a'' = Some \<lparr> ctype = Some ''phone'', room = Some ''main-room'' \<rparr>"
    by (simp add: sig_simps)
  have k: "current_room \<lparr> ctype = Some ''phone'', room = Some ''main-room'' \<rparr> = Some ''main-room''"
    by (simp add: current_room_def)
  have r: "rooms ?s ''main-room'' = Some \<lparr> room_clients = [''a''], created = 1 \<rparr>"
    by (simp add: sig_simps)
  have m: "room_clients \<lparr> room_clients = [''a''], created = 1 \<rparr> = [''a'']" by simp
  show ?thesis
    using rejoin_recreates_room [OF c k r m, of 5] c k r by simp
qed

text \<open>
  C10, the claim as first stated fails: the only member of the room whose id is the empty
  string joins it again. The leave step is skipped, the room is neither deleted nor created
  anew, and its creation time stays what it was.
\<close>

theorem rejoin_recreates_room_counterexample:
  "rooms (sig_exec [Connection ''a'', Join_room 1 ''a'' ''''] WebRTCSignaling) ''''
     = Some \<lparr> room_clients = [''a''], created = 1 \<rparr>
   \<and> rooms (fst (handleJoinRoom 5 ''a'' ''''
        (sig_exec [Connection ''a'', Join_room 1 ''a'' ''''] WebRTCSignaling))) ''''
     = Some \<lparr> room_clients = [''a''], created = 1 \<rparr>
   \<and> snd (handleJoinRoom 5 ''a'' ''''
        (sig_exec [Connection ''a'', Join_room 1 ''a'' ''''] WebRTCSignaling))
     = [Socket_join ''a'' '''', Emit_to ''a'' '''' (Peer_joined ''a'' None),
        Emit ''a'' (Room_joined '''' [])]"
  by (simp add: sig_simps)


end
